theory Spec2Isabelle
  imports Complex_Main
begin

text \<open>
  A model of the measurement core of splitwavepy, which estimates shear-wave splitting
  from a pair of seismic traces: the analysis window (\<open>core/data.py\<close>), the search grid,
  the grid search and the error bars of a measurement (\<open>core/measure.py\<close>), the
  constructors and the equality of pairs and windows (\<open>core/data.py\<close>, \<open>core/pair.py\<close>).
  The definitions come first, in the order of the sources; the properties follow.
\<close>

section \<open>Errors and Python values\<close>

text \<open>
  The Python sources raise exceptions; the model returns them as values.  A result is
  \<open>error + 'a\<close>, with \<open>Inl\<close> for the raised exception.  The constructors are the
  exception classes the sources raise (with the message text where the source gives one)
  and the ones the interpreter and numpy raise on an out-of-range index, a missing
  attribute or key, and an empty reduction.
\<close>

datatype error =
    Exception string
  | TypeError string
  | ValueError string
  | IndexError
  | KeyError
  | AttributeError

definition bind_e :: "error + 'a \<Rightarrow> ('a \<Rightarrow> error + 'b) \<Rightarrow> error + 'b" where
  "bind_e m f = (case m of Inl e \<Rightarrow> Inl e | Inr a \<Rightarrow> f a)"

text \<open>
  \<open>int(n / 2)\<close> for an integer \<open>n\<close>: true division followed by truncation towards
  zero (the sources import \<open>division\<close> from \<open>__future__\<close>).
\<close>

definition int_half :: "int \<Rightarrow> int" where
  "int_half n = (if 0 \<le> n then n div 2 else - ((- n) div 2))"

section \<open>Window (data.py)\<close>

record window =
  width :: int
  offset :: int
  tukey :: "real option"

text \<open>\<open>Window.__init__\<close>: the width must be odd (\<open>width % 2 != 1\<close> raises).\<close>

definition Window_init :: "int \<Rightarrow> int \<Rightarrow> real option \<Rightarrow> error + window" where
  "Window_init w off tk =
     (if w mod 2 \<noteq> 1 then Inl (Exception ''width must be an odd integer'')
      else Inr \<lparr> width = w, offset = off, tukey = tk \<rparr>)"

text \<open>\<open>Window.start\<close>, \<open>Window.end\<close> and \<open>Window.centre\<close> for a trace of \<open>samps\<close> samples.\<close>

definition start :: "window \<Rightarrow> int \<Rightarrow> error + int" where
  "start w samps =
     (let hw = int_half (width w) in
      if samps mod 2 \<noteq> 1 then Inl (Exception ''samps must be odd to have definite centre'')
      else let centre = int_half samps in Inr (centre + offset w - hw))"

definition end_w :: "window \<Rightarrow> int \<Rightarrow> error + int" where
  "end_w w samps =
     (let hw = int_half (width w) in
      if samps mod 2 \<noteq> 1 then Inl (Exception ''samps must be odd to have definite centre'')
      else let centre = int_half samps in Inr (centre + offset w + hw))"

definition centre :: "window \<Rightarrow> int \<Rightarrow> error + int" where
  "centre w samps =
     (if samps mod 2 \<noteq> 1 then Inl (Exception ''samps must be odd to have definite centre'')
      else let c = int_half samps in Inr (c + offset w))"

text \<open>
  \<open>signal.tukey(M, alpha)\<close>, the taper \<open>asarray\<close> asks for.  \<open>data.py\<close> uses the name
  \<open>signal\<close> without importing it; the model takes it to be \<open>scipy.signal\<close>, which
  \<open>pair.py\<close> imports.  A negative length raises; a window of at most one sample and a
  taper fraction of zero or less both give all ones.  The cosine shape for a positive
  fraction is a parameter \<open>shape\<close> of the model (it is the library's, and plays no part
  in the range checks).
\<close>

definition signal_tukey ::
  "(int \<Rightarrow> real \<Rightarrow> real list) \<Rightarrow> int \<Rightarrow> real \<Rightarrow> error + real list" where
  "signal_tukey shape M alpha =
     (if M < 0 then Inl (ValueError ''Window length M must be a non-negative integer'')
      else if M \<le> 1 then Inr (replicate (nat M) 1)
      else if alpha \<le> 0 then Inr (replicate (nat M) 1)
      else Inr (shape M alpha))"

text \<open>
  A Python slice bound on a sequence of \<open>n\<close> items: a negative bound counts from the end,
  and the result is clipped to \<open>0..n\<close>.
\<close>

definition slice_bound :: "nat \<Rightarrow> int \<Rightarrow> nat" where
  "slice_bound n i = (if i < 0 then nat (max 0 (i + int n)) else min (nat i) n)"

text \<open>
  \<open>array[lo:hi] = vals\<close> on a one-dimensional numpy array: the slice is clipped to the
  array, and the values must have the length of the clipped slice or be a single value
  (which numpy broadcasts); any other length raises numpy's broadcasting \<open>ValueError\<close>.
\<close>

definition slice_assign :: "real list \<Rightarrow> int \<Rightarrow> int \<Rightarrow> real list \<Rightarrow> error + real list" where
  "slice_assign arr lo hi vals =
     (let n = length arr;
          l = slice_bound n lo;
          h = max l (slice_bound n hi)
      in if length vals = h - l then Inr (take l arr @ vals @ drop h arr)
         else if length vals = 1 then Inr (take l arr @ replicate (h - l) (hd vals) @ drop h arr)
         else Inl (ValueError ''could not broadcast input array''))"

text \<open>
  \<open>Window.asarray\<close>: the range checks, then the taper written into an array of zeros
  (\<open>np.zeros\<close>, which raises on a negative size) at \<open>start .. end\<close> inclusive.  The upper
  check is the source's \<open>self.end(samps) > samps\<close>.
\<close>

definition asarray :: "(int \<Rightarrow> real \<Rightarrow> real list) \<Rightarrow> window \<Rightarrow> int \<Rightarrow> error + real list" where
  "asarray shape w samps =
     bind_e (end_w w samps) (\<lambda>e.
       if e > samps then Inl (Exception ''Window exceeds max range'')
       else bind_e (start w samps) (\<lambda>s.
         if s < 0 then Inl (Exception ''Window exceeds min range'')
         else
           let alpha = (case tukey w of None \<Rightarrow> 0 | Some a \<Rightarrow> a)
           in bind_e (signal_tukey shape (width w) alpha) (\<lambda>tk.
                if samps < 0 then Inl (ValueError ''negative dimensions are not allowed'')
                else slice_assign (replicate (nat samps) 0) s (e + 1) tk)))"

text \<open>
  \<open>Window.__eq__\<close>.  An instance's \<open>__dict__\<close> holds the three attributes the constructor
  sets; the comparison looks at the class and at the set of attribute names, and returns
  \<open>True\<close> after that.
\<close>

datatype pyval = PyInt int | PyFloat real | PyNone

definition window_class :: "window \<Rightarrow> string" where
  "window_class w = ''Window''"

definition window_dict :: "window \<Rightarrow> (string \<times> pyval) list" where
  "window_dict w =
     [(''width'', PyInt (width w)),
      (''offset'', PyInt (offset w)),
      (''tukey'', (case tukey w of None \<Rightarrow> PyNone | Some a \<Rightarrow> PyFloat a))]"

definition Window_eq :: "window \<Rightarrow> window \<Rightarrow> bool" where
  "Window_eq a b =
     (if window_class a \<noteq> window_class b then False
      else if set (map fst (window_dict a)) \<noteq> set (map fst (window_dict b)) then False
      else True)"

section \<open>The grid search window (measure.py)\<close>

text \<open>
  The closure \<open>win\<close> of \<open>Measure.gridsearch\<close>: \<open>s0\<close> and \<open>s1\<close> are the window bounds
  the measurement reads from its data, \<open>shift\<close> the lag of the grid node in samples.
  \<open>int(abs(shift)/2)\<close> is a truncation of a non-negative quotient.
\<close>

definition win :: "int \<Rightarrow> int \<Rightarrow> int \<Rightarrow> int \<times> int" where
  "win s0 s1 sh = (let ds = int_half \<bar>sh\<bar> in (s0 - ds, s1 - ds))"

text \<open>
  The window the specification describes for a grid node: the configured window with
  half the lag taken off each side.
\<close>

definition win_shrunk :: "int \<Rightarrow> int \<Rightarrow> int \<Rightarrow> int \<times> int" where
  "win_shrunk s0 s1 sh = (s0 + int_half \<bar>sh\<bar>, s1 - int_half \<bar>sh\<bar>)"

section \<open>Error bars from the confidence region (measure.py)\<close>

text \<open>
  A two-dimensional numpy array is a list of rows of one length.  In \<open>get_errors\<close> the
  rows of the error surface are indexed by lag and the columns by fast angle.  The
  sources compute in double precision; the model computes with real numbers.  The counts
  of rows and columns that go into the error bars are integers, and the factor \<open>0.25\<close>
  is exact in binary floating point.
\<close>

text \<open>\<open>confbool.any(axis=1)\<close>: one entry per row, true when the row holds a true value.\<close>

definition any_axis1 :: "bool list list \<Rightarrow> bool list" where
  "any_axis1 m = map (list_ex (\<lambda>b. b)) m"

text \<open>\<open>confbool.any(axis=0)\<close>: one entry per column.\<close>

definition any_axis0 :: "bool list list \<Rightarrow> bool list" where
  "any_axis0 m =
     (case m of [] \<Rightarrow> []
      | r # _ \<Rightarrow> map (\<lambda>j. list_ex (\<lambda>row. row ! j) m) [0..<length r])"

text \<open>\<open>np.where(bs)[0]\<close>: the indices of the true entries, ascending.\<close>

definition np_where :: "bool list \<Rightarrow> int list" where
  "np_where bs = map int (filter (\<lambda>i. bs ! i) [0..<length bs])"

text \<open>\<open>np.diff\<close>: the differences of neighbouring entries.\<close>

definition np_diff :: "int list \<Rightarrow> int list" where
  "np_diff xs = map (\<lambda>(a, b). b - a) (zip xs (tl xs))"

text \<open>\<open>.max()\<close>: numpy raises \<open>ValueError\<close> on an empty array.\<close>

definition np_max :: "int list \<Rightarrow> error + int" where
  "np_max xs =
     (case xs of [] \<Rightarrow> Inl (ValueError ''zero-size array to reduction operation maximum'')
      | x # r \<Rightarrow> Inr (fold max r x))"

text \<open>\<open>xs[i]\<close> for a non-negative index, and \<open>xs[-1]\<close>.\<close>

definition item :: "'a list \<Rightarrow> nat \<Rightarrow> error + 'a" where
  "item xs i = (if i < length xs then Inr (xs ! i) else Inl IndexError)"

definition item_last :: "'a list \<Rightarrow> error + 'a" where
  "item_last xs = (if xs = [] then Inl IndexError else Inr (last xs))"

text \<open>
  The part of \<open>get_errors\<close> after the confidence mask \<open>confbool\<close> has been formed
  (the lines from \<open># tlag error\<close> to the \<open>return\<close>).
\<close>

definition get_errors_mask :: "real \<Rightarrow> real \<Rightarrow> bool list list \<Rightarrow> error + (real \<times> real)" where
  "get_errors_mask lag_step fast_step confbool =
     (let lagbool = any_axis1 confbool;
          truth = np_where lagbool
      in bind_e (item_last truth) (\<lambda>tlast.
         bind_e (item truth 0) (\<lambda>tfirst.
         let fdlag = real_of_int (tlast - tfirst + 1) * lag_step * 0.25;
             fastbool = any_axis0 confbool;
             cyclic = fastbool @ fastbool
         in bind_e (np_max (np_diff (np_where cyclic))) (\<lambda>mx.
            let lengthFalse = mx - 1;
                lengthTrue = int (length fastbool) - lengthFalse;
                fdfast = real_of_int lengthTrue * fast_step * 0.25
            in Inr (fdfast, fdlag)))))"

text \<open>
  \<open>Measure.get_errors\<close>: the grid steps from the first two lags and angles, the mask
  from the error surface and the confidence level according to \<open>surftype\<close>, then the
  error bars.  The error surface and the confidence level are attributes a measurement
  carries; they are arguments here.
\<close>

definition conf_mask :: "string option \<Rightarrow> real list list \<Rightarrow> real \<Rightarrow> error + bool list list" where
  "conf_mask surftype errsurf conf95level =
     (if surftype = Some ''max'' then Inr (map (map (\<lambda>v. v \<ge> conf95level)) errsurf)
      else if surftype = Some ''min'' then Inr (map (map (\<lambda>v. v \<le> conf95level)) errsurf)
      else Inl (ValueError ''surftype must be min or max''))"

definition get_errors ::
  "real list \<Rightarrow> real list \<Rightarrow> real list list \<Rightarrow> real \<Rightarrow> string option \<Rightarrow> error + (real \<times> real)" where
  "get_errors degs_m lags_m errsurf conf95level surftype =
     bind_e (item lags_m 1) (\<lambda>l1. bind_e (item lags_m 0) (\<lambda>l0.
     bind_e (item degs_m 1) (\<lambda>d1. bind_e (item degs_m 0) (\<lambda>d0.
     let lag_step = l1 - l0; fast_step = d1 - d0
     in bind_e (conf_mask surftype errsurf conf95level) (\<lambda>confbool.
        get_errors_mask lag_step fast_step confbool)))))"

subsection \<open>What the specification says of the error bars\<close>

text \<open>
  A cyclic arc on \<open>n\<close> columns starts at column \<open>a\<close> and runs over \<open>len\<close> columns,
  wrapping from the last column to the first.  It covers a mask when every true column
  lies on it.  A length is that of the shortest covering arc when some arc of that
  length covers the mask and no shorter arc does.
\<close>

definition arc_covers :: "bool list \<Rightarrow> nat \<Rightarrow> nat \<Rightarrow> bool" where
  "arc_covers bs a len =
     list_all (\<lambda>j. bs ! j \<longrightarrow> (j + length bs - a) mod length bs < len) [0..<length bs]"

definition is_shortest_arc :: "bool list \<Rightarrow> nat \<Rightarrow> bool" where
  "is_shortest_arc bs len =
     (list_ex (\<lambda>a. arc_covers bs a len) [0..<length bs] \<and>
      list_all (\<lambda>l. list_all (\<lambda>a. \<not> arc_covers bs a l) [0..<length bs]) [0..<len])"

text \<open>
  A run of false values in a list: \<open>r\<close> neighbouring entries from position \<open>s\<close>, all
  false.  A length is that of the longest run when a run of that length exists and no
  longer one does.
\<close>

definition false_run :: "bool list \<Rightarrow> nat \<Rightarrow> nat \<Rightarrow> bool" where
  "false_run cs s r = (s + r \<le> length cs \<and> list_all (\<lambda>i. \<not> cs ! i) [s..<s + r])"

definition is_longest_false_run :: "bool list \<Rightarrow> nat \<Rightarrow> bool" where
  "is_longest_false_run cs r =
     (list_ex (\<lambda>s. false_run cs s r) [0..<Suc (length cs)] \<and>
      list_all (\<lambda>r'. list_all (\<lambda>s. \<not> false_run cs s r') [0..<Suc (length cs)])
        [Suc r..<Suc (length cs)])"

text \<open>
  The specification's lag error: the first and the last true row are looked up on the
  line of the mask through the optimum, that is in the column \<open>optcol\<close> of the optimum.
  \<open>span_through_optimum\<close> is the distance from the first to the last true row there.
\<close>

definition span_through_optimum :: "bool list list \<Rightarrow> nat \<Rightarrow> int" where
  "span_through_optimum confbool optcol =
     (let truth = np_where (map (\<lambda>row. row ! optcol) confbool) in last truth - hd truth)"

section \<open>Data and Pair (data.py, pair.py)\<close>

text \<open>
  A \<open>Pair\<close> is a \<open>Data\<close> object with two traces.  The record holds the attributes
  \<open>Data.__init__\<close> sets.  The traces are one-dimensional arrays (the type leaves the
  \<open>ndim\<close> check nothing to reject), and the component vectors are a two by two matrix.
\<close>

type_synonym mat2 = "(real \<times> real) \<times> (real \<times> real)"

record pair =
  trace_x :: "real list"
  trace_y :: "real list"
  delta :: real
  geom :: string
  cmpvecs :: mat2
  units :: string
  cmplabels :: "string list"
  window :: window

record data_kwargs =
  kw_delta :: "real option"
  kw_geom :: "string option"
  kw_cmpvecs :: "mat2 option"
  kw_units :: "string option"

definition possible_geoms :: "string list" where
  "possible_geoms = [''geo'', ''ray'', ''cart'']"

definition eye2 :: mat2 where
  "eye2 = ((1, 0), (0, 1))"

text \<open>\<open>np.allclose(a, b, atol=1e-02)\<close> on two by two matrices (numpy's \<open>rtol\<close> is \<open>1e-05\<close>).\<close>

definition close_to :: "real \<Rightarrow> real \<Rightarrow> bool" where
  "close_to a b = (\<bar>a - b\<bar> \<le> 1 / 100 + (1 / 100000) * \<bar>b\<bar>)"

definition allclose2 :: "mat2 \<Rightarrow> mat2 \<Rightarrow> bool" where
  "allclose2 a b =
     (close_to (fst (fst a)) (fst (fst b)) \<and> close_to (snd (fst a)) (snd (fst b)) \<and>
      close_to (fst (snd a)) (fst (snd b)) \<and> close_to (snd (snd a)) (snd (snd b)))"

text \<open>
  \<open>Data.set_labels()\<close> without arguments.  For an orientation away from the identity the
  labels are the rounded component angles as text; that text is the parameter
  \<open>anglabels\<close>.
\<close>

definition set_labels :: "(mat2 \<Rightarrow> string list) \<Rightarrow> string \<Rightarrow> mat2 \<Rightarrow> string list" where
  "set_labels anglabels g cv =
     (if allclose2 cv eye2 then
        (if g = ''geo'' then [''North'', ''East'']
         else if g = ''ray'' then [''SV'', ''SH'']
         else if g = ''cart'' then [''X'', ''Y'']
         else [''Comp1'', ''Comp2''])
      else anglabels cv)"

text \<open>
  Modelled from the spec: \<open>core.odd\<close>, which is not among the sources.  The
  specification has the default window width be about a third of the trace length,
  rounded to odd; this is the odd integer nearest to the argument.
\<close>

definition core_odd :: "real \<Rightarrow> int" where
  "core_odd r = 2 * round ((r - 1) / 2) + 1"

text \<open>
  \<open>Data.__init__\<close>, with the property setters of \<open>delta\<close> and \<open>geom\<close> inlined at the
  places the constructor assigns them.
\<close>

definition Data_init ::
  "(mat2 \<Rightarrow> string list) \<Rightarrow> real list \<Rightarrow> real list \<Rightarrow> data_kwargs \<Rightarrow> error + pair" where
  "Data_init anglabels xa ya kw =
     (case kw_delta kw of
        None \<Rightarrow> Inl (Exception ''delta must be set'')
      | Some d \<Rightarrow>
          if d \<le> 0 then Inl (ValueError ''delta must be positive'')
          else if length xa mod 2 = 0 then Inl (Exception ''data must have odd number of samples'')
          else if length xa \<noteq> length ya then Inl (Exception ''x and y must be the same length'')
          else
            let g = (case kw_geom kw of None \<Rightarrow> ''geo'' | Some g' \<Rightarrow> g')
            in if g \<notin> set possible_geoms then Inl (ValueError ''geom must be one of ['geo', 'ray', 'cart']'')
               else
                 let cv = (case kw_cmpvecs kw of None \<Rightarrow> eye2 | Some c \<Rightarrow> c);
                     u = (case kw_units kw of None \<Rightarrow> ''s'' | Some u' \<Rightarrow> u')
                 in bind_e (Window_init (core_odd (real (length xa) / 3)) 0 None) (\<lambda>w.
                      Inr \<lparr> trace_x = xa, trace_y = ya, delta = d, geom = g, cmpvecs = cv,
                            units = u, cmplabels = set_labels anglabels g cv, window = w \<rparr>))"

text \<open>\<open>Data.wwidth\<close>: the window width in time units.\<close>

definition wwidth :: "pair \<Rightarrow> real" where
  "wwidth d = real_of_int (width (window d) - 1) * delta d"

subsection \<open>Equality of pairs\<close>

text \<open>
  \<open>np.all(a == b)\<close> on two one-dimensional arrays: element by element on equal lengths,
  a single element against every element of the other array (broadcasting), and false on
  lengths that do not broadcast.
\<close>

definition np_all_eq :: "real list \<Rightarrow> real list \<Rightarrow> bool" where
  "np_all_eq xa ya =
     (if length xa = length ya then list_all (\<lambda>(a, b). a = b) (zip xa ya)
      else if length xa = 1 then list_all (\<lambda>b. hd xa = b) ya
      else if length ya = 1 then list_all (\<lambda>a. a = hd ya) xa
      else False)"

definition pair_class :: "pair \<Rightarrow> string" where
  "pair_class p = ''Pair''"

definition pair_keys :: "pair \<Rightarrow> string list" where
  "pair_keys p =
     [''x'', ''y'', ''_Data__delta'', ''_Data__geom'', ''cmpvecs'', ''_Data__units'',
      ''_Data__cmplabels'', ''_Data__window'', ''Data'']"

text \<open>
  \<open>Pair.__eq__\<close> (and \<open>Data.__eq__\<close>, which has the same text): the class, the attribute
  names, then every attribute with \<open>==\<close> under \<open>np.all\<close>.  On the window attribute
  \<open>==\<close> is \<open>Window.__eq__\<close>.
\<close>

definition Pair_eq :: "pair \<Rightarrow> pair \<Rightarrow> bool" where
  "Pair_eq a b =
     (if pair_class a \<noteq> pair_class b then False
      else if set (pair_keys a) \<noteq> set (pair_keys b) then False
      else if \<not> np_all_eq (trace_x a) (trace_x b) then False
      else if \<not> np_all_eq (trace_y a) (trace_y b) then False
      else if \<not> (delta a = delta b) then False
      else if \<not> (geom a = geom b) then False
      else if \<not> (cmpvecs a = cmpvecs b) then False
      else if \<not> (units a = units b) then False
      else if \<not> (cmplabels a = cmplabels b) then False
      else if \<not> Window_eq (window a) (window b) then False
      else True)"

section \<open>The search grid (measure.py)\<close>

text \<open>
  Modelled from the spec: \<open>core.time2samps\<close> in mode \<open>even\<close> and \<open>core.samps2time\<close>,
  which are not among the sources.  The specification has a lag time snapped to the
  nearest even sample count, and the reported time recomputed from the sample count.
  The specification does not say which way a time halfway between two even counts goes;
  \<open>round\<close> takes it upwards.
\<close>

definition time2samps_even :: "real \<Rightarrow> real \<Rightarrow> int" where
  "time2samps_even t dt = 2 * round (t / dt / 2)"

definition samps2time :: "int \<Rightarrow> real \<Rightarrow> real" where
  "samps2time n dt = real_of_int n * dt"

text \<open>
  \<open>np.linspace(a, b, num)\<close> with and without the end point, and \<open>np.unique\<close>, which
  sorts and drops duplicates.
\<close>

definition linspace :: "real \<Rightarrow> real \<Rightarrow> int \<Rightarrow> error + real list" where
  "linspace a b num =
     (if num < 0 then Inl (ValueError ''Number of samples must be non-negative'')
      else if num = 1 then Inr [a]
      else Inr (map (\<lambda>i. a + real i * ((b - a) / real_of_int (num - 1))) [0..<nat num]))"

definition linspace_open :: "real \<Rightarrow> real \<Rightarrow> int \<Rightarrow> error + real list" where
  "linspace_open a b num =
     (if num < 0 then Inl (ValueError ''Number of samples must be non-negative'')
      else Inr (map (\<lambda>i. a + real i * ((b - a) / real_of_int num)) [0..<nat num]))"

definition np_unique :: "int list \<Rightarrow> int list" where
  "np_unique xs = sort (remdups xs)"

text \<open>
  The values the keywords \<open>lags\<close>, \<open>degs\<close>, \<open>rcvcorr\<close> and \<open>srccorr\<close> can hold, as far
  as the constructor tells them apart: an array, a tuple of one, two or three entries
  (the last entry of the longer ones is the count \<open>np.linspace\<close> takes), a tuple of any
  other length, and anything else.
\<close>

datatype lags_arg =
    LagsArray "real list"
  | LagsTuple1 real
  | LagsTuple2 real int
  | LagsTuple3 real real int
  | LagsTupleOther
  | LagsOther

datatype degs_arg = DegsArray "real list" | DegsInt int | DegsOther

datatype corr_arg = CorrTuple "real list" | CorrOther

record kwargs =
  kw_lags :: "lags_arg option"
  kw_degs :: "degs_arg option"
  kw_rcvcorr :: "corr_arg option"
  kw_srccorr :: "corr_arg option"
  kw_name :: "string option"
  kw_mode :: "string option"
  kw_pol :: "real option"

definition parse_lags :: "pair \<Rightarrow> kwargs \<Rightarrow> error + real list" where
  "parse_lags d kw =
     (let minlag = 0; maxlag = wwidth d / 4; nlags = 40
      in case kw_lags kw of
           None \<Rightarrow> linspace minlag maxlag nlags
         | Some (LagsArray a) \<Rightarrow> Inr a
         | Some (LagsTuple1 b) \<Rightarrow> linspace minlag b nlags
         | Some (LagsTuple2 b n) \<Rightarrow> linspace minlag b n
         | Some (LagsTuple3 a b n) \<Rightarrow> linspace a b n
         | Some LagsTupleOther \<Rightarrow> Inl (Exception ''Can't parse lags keyword'')
         | Some LagsOther \<Rightarrow> Inl (TypeError ''lags keyword must be a tuple or numpy array''))"

definition parse_degs :: "kwargs \<Rightarrow> error + real list" where
  "parse_degs kw =
     (let mindeg = - 90; maxdeg = 90; ndegs = 90
      in case kw_degs kw of
           None \<Rightarrow> linspace_open mindeg maxdeg ndegs
         | Some (DegsArray a) \<Rightarrow> Inr a
         | Some (DegsInt n) \<Rightarrow> linspace_open mindeg maxdeg n
         | Some DegsOther \<Rightarrow> Inl (TypeError ''degs must be an integer or numpy array''))"

text \<open>\<open>Measure._get_degs_lags_and_slags\<close>; the result is \<open>(degs, lags, slags)\<close>.\<close>

definition get_degs_lags_and_slags ::
  "pair \<Rightarrow> kwargs \<Rightarrow> error + (real list \<times> real list \<times> int list)" where
  "get_degs_lags_and_slags d kw =
     bind_e (parse_lags d kw) (\<lambda>lags0.
       let slags0 = np_unique (map (\<lambda>t. time2samps_even t (delta d)) lags0);
           lags1 = map (\<lambda>n. samps2time n (delta d)) slags0
       in bind_e (parse_degs kw) (\<lambda>degs0. Inr (degs0, lags1, slags0)))"

section \<open>The measurement (measure.py)\<close>

text \<open>
  The attributes \<open>Measure.__init__\<close> sets.  \<open>rcvcorr_samps\<close> and \<open>srccorr_samps\<close> are
  the private attributes \<open>__rcvcorr\<close> and \<open>__srccorr\<close>, which exist only when the
  keyword was given; \<open>None\<close> stands for a missing attribute.
\<close>

record measure =
  data :: pair
  degs :: "real list"
  lags :: "real list"
  slags :: "int list"
  rcvcorr :: "(real \<times> real) option"
  rcvcorr_samps :: "(real \<times> int) option"
  srccorr :: "(real \<times> real) option"
  srccorr_samps :: "(real \<times> int) option"
  name :: string
  m_kwargs :: kwargs

text \<open>
  The check and conversion of one correction keyword; the constructor has this text
  twice, for \<open>rcvcorr\<close> and for \<open>srccorr\<close>.  The result is the pair in samples and the
  pair in time units.
\<close>

definition parse_corr ::
  "string \<Rightarrow> corr_arg option \<Rightarrow> real \<Rightarrow> error + ((real \<times> int) option \<times> (real \<times> real) option)" where
  "parse_corr key arg dt =
     (case arg of
        None \<Rightarrow> Inr (None, None)
      | Some CorrOther \<Rightarrow> Inl (TypeError (key @ '' must be tuple''))
      | Some (CorrTuple vs) \<Rightarrow>
          if length vs \<noteq> 2 then Inl (Exception (key @ '' must be length 2''))
          else
            let deg = vs ! 0; lag = vs ! 1;
                samps = time2samps_even lag dt
            in Inr (Some (deg, samps), Some (deg, real_of_int samps * dt)))"

definition Measure_init :: "pair \<Rightarrow> kwargs \<Rightarrow> error + measure" where
  "Measure_init d kw =
     bind_e (get_degs_lags_and_slags d kw) (\<lambda>(dg, lg, sl).
     bind_e (parse_corr ''rcvcorr'' (kw_rcvcorr kw) (delta d)) (\<lambda>(rs, rt).
     bind_e (parse_corr ''srccorr'' (kw_srccorr kw) (delta d)) (\<lambda>(ss, st).
       Inr \<lparr> data = d, degs = dg, lags = lg, slags = sl,
             rcvcorr = rt, rcvcorr_samps = rs, srccorr = st, srccorr_samps = ss,
             name = (case kw_name kw of None \<Rightarrow> ''Untitled'' | Some n \<Rightarrow> n),
             m_kwargs = kw \<rparr>)))"

section \<open>The grid search (measure.py)\<close>

text \<open>
  \<open>Measure.gridsearch\<close> works through the functions of the module \<open>core\<close> (\<open>rotate\<close>,
  \<open>lag\<close>, \<open>chop\<close>, \<open>unsplit\<close>), through \<open>copy\<close> and \<open>rotateto\<close> of the data (one
  field of the record, which yields the traces of the rotated copy) and through the
  window bounds \<open>_w0\<close> and \<open>_w1\<close> of the data.  The module \<open>core\<close> is not among the
  sources, nor are \<open>_w0\<close> and \<open>_w1\<close>, and the rotation works on arrays through the
  trigonometric functions; so all of them are parameters of the model, collected in a
  record.  \<open>'t\<close> is the type of a trace pair \<open>(x, y)\<close>.  Each of them may raise.
\<close>

record 't core =
  rotateto :: "pair \<Rightarrow> real \<Rightarrow> error + 't"
  w0 :: "pair \<Rightarrow> error + int"
  w1 :: "pair \<Rightarrow> error + int"
  rotate :: "'t \<Rightarrow> real \<Rightarrow> error + 't"
  lag :: "'t \<Rightarrow> int \<Rightarrow> error + 't"
  chop :: "'t \<Rightarrow> int \<Rightarrow> int \<Rightarrow> error + 't"
  unsplit :: "'t \<Rightarrow> real \<Rightarrow> int \<Rightarrow> error + 't"

text \<open>
  How often and where a correction is applied is a matter of the calls a search makes.
  The model therefore keeps a log: a run yields its result together with the calls it
  made to the transform functions and to the objective function, in the order of the
  calls.  A run that raises stops, and keeps the log up to the call that raised.
\<close>

datatype event =
    EvRotateTo real
  | EvUnsplit real int
  | EvRotate real
  | EvLag int
  | EvChop int int
  | EvFunc

type_synonym 'a logged = "(error + 'a) \<times> event list"

definition ret :: "'a \<Rightarrow> 'a logged" where
  "ret a = (Inr a, [])"

definition raise :: "error \<Rightarrow> 'a logged" where
  "raise e = (Inl e, [])"

definition quiet :: "error + 'a \<Rightarrow> 'a logged" where
  "quiet r = (r, [])"

definition call :: "event \<Rightarrow> error + 'a \<Rightarrow> 'a logged" where
  "call ev r = (r, [ev])"

definition bind_l :: "'a logged \<Rightarrow> ('a \<Rightarrow> 'b logged) \<Rightarrow> 'b logged" where
  "bind_l m f =
     (case fst m of
        Inl e \<Rightarrow> (Inl e, snd m)
      | Inr a \<Rightarrow> (fst (f a), snd m @ snd (f a)))"

text \<open>A list comprehension whose body makes calls: left to right, stopping at a raise.\<close>

fun mapM_l :: "('a \<Rightarrow> 'b logged) \<Rightarrow> 'a list \<Rightarrow> 'b list logged" where
  "mapM_l f [] = ret []"
| "mapM_l f (a # as) = bind_l (f a) (\<lambda>b. bind_l (mapM_l f as) (\<lambda>bs. ret (b # bs)))"

text \<open>
  The closures of \<open>gridsearch\<close>.  \<open>src\<close> is the source correction in samples when the
  keyword \<open>srccorr\<close> was passed to the search, \<open>kw\<close> the keyword arguments of the search.
\<close>

definition srccorr_fn :: "'t core \<Rightarrow> (real \<times> int) option \<Rightarrow> 't \<Rightarrow> real \<Rightarrow> 't logged" where
  "srccorr_fn c src xy ang =
     (case src of
        Some (srcphi, srclag) \<Rightarrow>
          call (EvUnsplit (srcphi - ang) srclag) (unsplit c xy (srcphi - ang) srclag)
      | None \<Rightarrow> ret xy)"

definition rotpol_fn :: "'t core \<Rightarrow> kwargs \<Rightarrow> 't \<Rightarrow> real \<Rightarrow> 't logged" where
  "rotpol_fn c kw xy ang =
     (if kw_mode kw = Some ''rotpol'' then
        (case kw_pol kw of
           None \<Rightarrow> raise KeyError
         | Some pol \<Rightarrow> call (EvRotate (pol - ang)) (rotate c xy (pol - ang)))
      else ret xy)"

definition getout ::
  "'t core \<Rightarrow> ('t \<Rightarrow> error + 'r) \<Rightarrow> kwargs \<Rightarrow> (real \<times> int) option \<Rightarrow> int \<Rightarrow> int \<Rightarrow>
   't \<Rightarrow> real \<Rightarrow> int \<Rightarrow> 'r logged" where
  "getout c func kw src s0 s1 xy ang sh =
     bind_l (call (EvLag (- sh)) (lag c xy (- sh))) (\<lambda>xy1.
     bind_l (srccorr_fn c src xy1 ang) (\<lambda>xy2.
     bind_l (call (EvChop (fst (win s0 s1 sh)) (snd (win s0 s1 sh)))
               (chop c xy2 (fst (win s0 s1 sh)) (snd (win s0 s1 sh)))) (\<lambda>xy3.
     bind_l (rotpol_fn c kw xy3 ang) (\<lambda>xy4.
     call EvFunc (func xy4)))))"

text \<open>
  \<open>Measure.gridsearch\<close>.  \<open>func\<close> is the objective function of the measurement
  (\<open>self.func\<close>), \<open>kw\<close> the keyword arguments of this call.  A correction is applied when
  its keyword is among them; the parameters are read from the private attribute the
  constructor has set, and reading an attribute that was not set raises.
\<close>

definition gridsearch ::
  "'t core \<Rightarrow> ('t \<Rightarrow> error + 'r) \<Rightarrow> measure \<Rightarrow> kwargs \<Rightarrow> 'r list list logged" where
  "gridsearch c func m kw =
     bind_l (call (EvRotateTo 0) (rotateto c (data m) 0)) (\<lambda>xy0.
     bind_l (quiet (w0 c (data m))) (\<lambda>s0.
     bind_l (quiet (w1 c (data m))) (\<lambda>s1.
     bind_l (if kw_rcvcorr kw \<noteq> None then
               (case rcvcorr_samps m of
                  None \<Rightarrow> raise AttributeError
                | Some (rcvphi, rcvlag) \<Rightarrow>
                    call (EvUnsplit rcvphi rcvlag) (unsplit c xy0 rcvphi rcvlag))
             else ret xy0) (\<lambda>xy.
     bind_l (if kw_srccorr kw \<noteq> None then
               (case srccorr_samps m of
                  None \<Rightarrow> raise AttributeError
                | Some sc \<Rightarrow> ret (Some sc))
             else ret None) (\<lambda>src.
     bind_l (mapM_l (\<lambda>ang. bind_l (call (EvRotate ang) (rotate c xy ang)) (\<lambda>r. ret (r, ang)))
               (degs m)) (\<lambda>prerot.
     mapM_l (\<lambda>(r, ang). mapM_l (\<lambda>sh. getout c func kw src s0 s1 r ang sh) (slags m))
       prerot))))))"

subsection \<open>Transforms as symbols\<close>

text \<open>
  To read off what a grid node was computed from, the transforms are instantiated by
  the constructors of a term language: a trace pair is then the term that records the
  transforms applied to the data, innermost first.  These transforms never raise; the
  window bounds are two given numbers.
\<close>

datatype sym =
    SData
  | SRotateTo sym real
  | SRotate sym real
  | SLag sym int
  | SChop sym int int
  | SUnsplit sym real int

definition sym_core :: "int \<Rightarrow> int \<Rightarrow> sym core" where
  "sym_core s0 s1 =
     \<lparr> rotateto = (\<lambda>d a. Inr (SRotateTo SData a)),
       w0 = (\<lambda>d. Inr s0),
       w1 = (\<lambda>d. Inr s1),
       rotate = (\<lambda>t a. Inr (SRotate t a)),
       lag = (\<lambda>t n. Inr (SLag t n)),
       chop = (\<lambda>t a b. Inr (SChop t a b)),
       unsplit = (\<lambda>t a n. Inr (SUnsplit t a n)) \<rparr>"

text \<open>
  The term a grid node is expected to be: the data in canonical orientation,
  the receiver correction when there is one, the rotation to the candidate angle, the
  removal of the candidate lag, the source correction when there is one with its angle
  taken relative to the candidate angle, the window, and the rotation to the
  polarisation when the search asks for one.
\<close>

definition pre_term :: "(real \<times> int) option \<Rightarrow> sym" where
  "pre_term rcv =
     (case rcv of
        None \<Rightarrow> SRotateTo SData 0
      | Some (rcvphi, rcvlag) \<Rightarrow> SUnsplit (SRotateTo SData 0) rcvphi rcvlag)"

definition src_term :: "(real \<times> int) option \<Rightarrow> real \<Rightarrow> sym \<Rightarrow> sym" where
  "src_term src ang t =
     (case src of
        None \<Rightarrow> t
      | Some (srcphi, srclag) \<Rightarrow> SUnsplit t (srcphi - ang) srclag)"

definition pol_term :: "real option \<Rightarrow> real \<Rightarrow> sym \<Rightarrow> sym" where
  "pol_term pol ang t =
     (case pol of
        None \<Rightarrow> t
      | Some p \<Rightarrow> SRotate t (p - ang))"

definition node_term ::
  "int \<Rightarrow> int \<Rightarrow> (real \<times> int) option \<Rightarrow> (real \<times> int) option \<Rightarrow> real option \<Rightarrow>
   real \<Rightarrow> int \<Rightarrow> sym" where
  "node_term s0 s1 rcv src pol ang sh =
     pol_term pol ang
       (SChop (src_term src ang (SLag (SRotate (pre_term rcv) ang) (- sh)))
          (fst (win s0 s1 sh)) (snd (win s0 s1 sh)))"

text \<open>
  The calls a search makes, in order, when no transform raises.  \<open>pol\<close> is the
  polarisation the search rotates to before the objective function, when it is called in
  the mode \<open>rotpol\<close>.
\<close>

definition search_pol :: "kwargs \<Rightarrow> real option" where
  "search_pol kw = (if kw_mode kw = Some ''rotpol'' then kw_pol kw else None)"

definition pre_events :: "(real \<times> int) option \<Rightarrow> event list" where
  "pre_events rcv =
     EvRotateTo 0 # (case rcv of None \<Rightarrow> [] | Some (rcvphi, rcvlag) \<Rightarrow> [EvUnsplit rcvphi rcvlag])"

definition node_events ::
  "int \<Rightarrow> int \<Rightarrow> (real \<times> int) option \<Rightarrow> real option \<Rightarrow> real \<Rightarrow> int \<Rightarrow> event list" where
  "node_events s0 s1 src pol ang sh =
     EvLag (- sh) #
     (case src of None \<Rightarrow> [] | Some (srcphi, srclag) \<Rightarrow> [EvUnsplit (srcphi - ang) srclag]) @
     [EvChop (fst (win s0 s1 sh)) (snd (win s0 s1 sh))] @
     (case pol of None \<Rightarrow> [] | Some p \<Rightarrow> [EvRotate (p - ang)]) @
     [EvFunc]"

definition search_events ::
  "int \<Rightarrow> int \<Rightarrow> (real \<times> int) option \<Rightarrow> (real \<times> int) option \<Rightarrow> real option \<Rightarrow>
   real list \<Rightarrow> int list \<Rightarrow> event list" where
  "search_events s0 s1 rcv src pol dg sl =
     pre_events rcv @ map EvRotate dg @
     concat (map (\<lambda>ang. concat (map (\<lambda>sh. node_events s0 s1 src pol ang sh) sl)) dg)"

section \<open>Example inputs\<close>

text \<open>
  A pair of nine samples at unit sampling interval, and keyword arguments that ask for
  four lag times, two angles, a receiver correction of 30 degrees and 2 time units and a
  source correction of 10 degrees and 4 time units.
\<close>

definition example_pair :: pair where
  "example_pair =
     \<lparr> trace_x = [1, 2, 3, 4, 5, 6, 7, 8, 9], trace_y = [0, 0, 0, 0, 0, 0, 0, 0, 0],
       delta = 1, geom = ''geo'', cmpvecs = eye2, units = ''s'',
       cmplabels = [''North'', ''East''],
       window = \<lparr> width = 3, offset = 0, tukey = None \<rparr> \<rparr>"

definition example_kwargs :: kwargs where
  "example_kwargs =
     \<lparr> kw_lags = Some (LagsArray [0, 4 / 10, 29 / 10, 18 / 10]),
       kw_degs = Some (DegsInt 2),
       kw_rcvcorr = Some (CorrTuple [30, 2]),
       kw_srccorr = Some (CorrTuple [10, 4]),
       kw_name = None, kw_mode = None, kw_pol = None \<rparr>"

section \<open>Properties of the window\<close>

lemma int_half_nonneg: "0 \<le> n \<Longrightarrow> int_half n = n div 2"
  by (simp add: int_half_def)

lemma int_half_abs: "int_half \<bar>n\<bar> = \<bar>n\<bar> div 2"
  by (simp add: int_half_def)

text \<open>
  For a trace of odd length and a window of non-negative width the start and the end
  sample are the centre sample plus the offset, less and plus half the width rounded
  down.
\<close>

lemma start_end_formula:
  assumes "samps mod 2 = 1" and "0 \<le> samps" and "0 \<le> width w"
  shows "start w samps = Inr (samps div 2 - width w div 2 + offset w)"
    and "end_w w samps = Inr (samps div 2 + width w div 2 + offset w)"
  using assms by (simp_all add: start_def end_w_def int_half_def Let_def)

lemma slice_assign_no_exception: "slice_assign arr lo hi vals \<noteq> Inl (Exception msg)"
  by (simp add: slice_assign_def Let_def)

lemma signal_tukey_no_exception: "signal_tukey shape M alpha \<noteq> Inl (Exception msg)"
  by (simp add: signal_tukey_def)

text \<open>
  The two range errors of \<open>asarray\<close> are raised exactly when the start sample is
  negative or the end sample is greater than the number of samples.
\<close>

lemma asarray_range_error:
  assumes "start w samps = Inr s" and "end_w w samps = Inr e"
  shows "(asarray shape w samps = Inl (Exception ''Window exceeds max range'') \<or>
          asarray shape w samps = Inl (Exception ''Window exceeds min range''))
         \<longleftrightarrow> (s < 0 \<or> e > samps)"
proof (cases "s < 0 \<or> e > samps")
  case True
  then show ?thesis using assms by (auto simp add: asarray_def bind_e_def)
next
  case False
  define alpha where "alpha = (case tukey w of None \<Rightarrow> 0 | Some a \<Rightarrow> a)"
  have unfold: "asarray shape w samps =
      bind_e (signal_tukey shape (width w) alpha) (\<lambda>tk.
        if samps < 0 then Inl (ValueError ''negative dimensions are not allowed'')
        else slice_assign (replicate (nat samps) 0) s (e + 1) tk)"
    using assms False by (simp add: asarray_def bind_e_def Let_def alpha_def)
  have "asarray shape w samps \<noteq> Inl (Exception msg)" for msg
  proof (cases "signal_tukey shape (width w) alpha")
    case (Inl err)
    then show ?thesis
      using signal_tukey_no_exception [of shape "width w" alpha msg]
      by (simp add: unfold bind_e_def)
  next
    case (Inr tk)
    then show ?thesis
      using slice_assign_no_exception [of "replicate (nat samps) 0" s "e + 1" tk msg]
      by (simp add: unfold bind_e_def)
  qed
  then show ?thesis using False by simp
qed

text \<open>
  Claim C6.  The claim has the window fail with a range error exactly when its start
  sample is below 0 or its end sample is above \<open>N - 1\<close>.  The upper check of
  \<open>asarray\<close> compares the end sample with \<open>N\<close>, so a window whose end sample is \<open>N\<close>,
  one past the last sample, passes both checks.  On a trace of three samples the window
  of width 1 at offset 2 ends at sample 3 and comes back as an array of zeros with no
  error; the window of width 3 at offset 1 ends at sample 3 too and fails only in the
  assignment of the taper, with numpy's broadcasting error.
\<close>

theorem asarray_end_at_samps:
  "end_w \<lparr>width = 1, offset = 2, tukey = None\<rparr> 3 = Inr 3 \<and>
   asarray shape \<lparr>width = 1, offset = 2, tukey = None\<rparr> 3 = Inr [0, 0, 0] \<and>
   end_w \<lparr>width = 3, offset = 1, tukey = None\<rparr> 3 = Inr 3 \<and>
   asarray shape \<lparr>width = 3, offset = 1, tukey = None\<rparr> 3
     = Inl (ValueError ''could not broadcast input array'')"
  by (simp add: asarray_def end_w_def start_def int_half_def bind_e_def signal_tukey_def
      slice_assign_def slice_bound_def Let_def eval_nat_numeral)

text \<open>
  Claim C10.  Equality of windows looks at the class and at the attribute names and
  never at the values: any two windows are equal, also when their widths, offsets or
  taper fractions differ.
\<close>

theorem Window_eq_ignores_values: "Window_eq a b = True"
  by (simp add: Window_eq_def window_class_def window_dict_def)

theorem Window_eq_ignores_values_witness:
  "Window_eq \<lparr>width = 3, offset = 0, tukey = None\<rparr>
     \<lparr>width = 5, offset = 2, tukey = Some (1 / 2)\<rparr> = True \<and>
   width \<lparr>width = 3, offset = 0, tukey = None\<rparr>
     \<noteq> width \<lparr>width = 5, offset = 2, tukey = Some (1 / 2)\<rparr>"
  using Window_eq_ignores_values
    [of "\<lparr>width = 3, offset = 0, tukey = None\<rparr>"
        "\<lparr>width = 5, offset = 2, tukey = Some (1 / 2)\<rparr>"]
  by simp

section \<open>The window of a grid node\<close>

text \<open>
  The window of a grid node is not the configured window shrunk by half the lag on each
  side: at the bounds 10 and 20 and a lag of 4 samples the search chops to 8 and 18, and
  the shrunk window would be 12 and 18.
\<close>

theorem win_shrink_counterexample: "win 10 20 4 \<noteq> win_shrunk 10 20 4"
  by (simp add: win_def win_shrunk_def int_half_def)

text \<open>
  Claim C1, amended.  For a grid node with lag \<open>sh\<close> in samples the pair is chopped to
  the configured window moved towards the start of the trace by half the size of the
  lag, rounded down: both bounds move by the same amount, so the width of the window
  stays what it was, and the bounds are the same for a lag and for its negative.
\<close>

theorem win_translates:
  "win s0 s1 sh = (s0 - \<bar>sh\<bar> div 2, s1 - \<bar>sh\<bar> div 2) \<and>
   snd (win s0 s1 sh) - fst (win s0 s1 sh) = s1 - s0 \<and>
   win s0 s1 (- sh) = win s0 s1 sh"
  by (simp add: win_def int_half_abs Let_def)

section \<open>Properties of the error bars\<close>

subsection \<open>Indices of true entries and their differences\<close>

text \<open>
  The indices \<open>np.where\<close> returns are strictly ascending.  In such a list the first
  entry is the least and the last the greatest, two neighbouring entries have no entry
  between them, and any value between two entries lies between two neighbouring ones.
  The largest difference of neighbours is one of the differences.
\<close>

lemma set_np_where: "set (np_where bs) = int ` {i. i < length bs \<and> bs ! i}"
  by (auto simp add: np_where_def)

lemma sorted_np_where: "sorted_wrt (<) (np_where bs)"
  unfolding np_where_def
  by (simp add: sorted_wrt_map sorted_wrt_filter)

lemma np_where_empty_iff: "np_where bs = [] \<longleftrightarrow> (\<forall>i<length bs. \<not> bs ! i)"
  by (auto simp add: np_where_def filter_empty_conv)

lemma strict_sorted_hd_le:
  fixes xs :: "int list"
  assumes "sorted_wrt (<) xs" and "x \<in> set xs"
  shows "hd xs \<le> x"
  using assms by (cases xs) auto

lemma strict_sorted_le_last:
  fixes xs :: "int list"
  assumes "sorted_wrt (<) xs" and "x \<in> set xs"
  shows "x \<le> last xs"
proof -
  from assms(2) obtain i where i: "i < length xs" "xs ! i = x"
    by (auto simp add: in_set_conv_nth)
  have ne: "xs \<noteq> []" using assms(2) by auto
  show ?thesis
  proof (cases "i = length xs - 1")
    case True
    then show ?thesis using i ne by (simp add: last_conv_nth)
  next
    case False
    then have "i < length xs - 1" using i by simp
    then have "xs ! i < xs ! (length xs - 1)"
      using assms(1) ne by (simp add: sorted_wrt_iff_nth_less)
    then show ?thesis using i ne by (simp add: last_conv_nth)
  qed
qed

lemma np_max_eq_Max:
  assumes "xs \<noteq> []"
  shows "np_max xs = Inr (Max (set xs))"
proof (cases xs)
  case Nil
  then show ?thesis using assms by simp
next
  case (Cons a list)
  then show ?thesis using Max.set_eq_fold [of a list] by (simp add: np_max_def)
qed

lemma length_np_diff: "length (np_diff xs) = length xs - 1"
  by (simp add: np_diff_def)

lemma nth_np_diff: "Suc i < length xs \<Longrightarrow> np_diff xs ! i = xs ! Suc i - xs ! i"
  by (simp add: np_diff_def nth_tl)

lemma np_where_all_true: "np_where (replicate n True) = map int [0..<n]"
proof -
  have "filter (\<lambda>i. replicate n True ! i) [0..<n] = [0..<n]"
    by (rule filter_True) simp
  then show ?thesis by (simp add: np_where_def)
qed

lemma np_diff_upt: "np_diff (map int [0..<n]) = replicate (n - 1) 1"
  by (rule nth_equalityI) (simp_all add: length_np_diff nth_np_diff)

lemma np_max_ones: "0 < k \<Longrightarrow> np_max (replicate k 1) = Inr 1"
  by (subst np_max_eq_Max) auto

lemma any_axis1_full:
  assumes "\<forall>row\<in>set m. row = replicate ncols True" and "0 < ncols"
  shows "any_axis1 m = replicate (length m) True"
proof -
  have "list_ex (\<lambda>b. b) row" if "row \<in> set m" for row
    using that assms by (auto simp add: list_ex_iff)
  then have "map (list_ex (\<lambda>b. b)) m = map (\<lambda>_. True) m"
    by (intro map_cong) auto
  then show ?thesis by (simp add: any_axis1_def map_replicate_const)
qed

lemma any_axis0_full:
  assumes "\<forall>row\<in>set m. row = replicate ncols True" and "m \<noteq> []"
  shows "any_axis0 m = replicate ncols True"
proof -
  obtain r rs where m: "m = r # rs" using assms(2) by (cases m) auto
  have r: "r = replicate ncols True" using assms(1) m by simp
  have "map (\<lambda>j. list_ex (\<lambda>row. row ! j) m) [0..<ncols] = map (\<lambda>_. True) [0..<ncols]"
    by (intro map_cong refl) (auto simp add: list_ex_iff m r)
  then show ?thesis by (simp add: any_axis0_def m r map_replicate_const)
qed

lemma any_axis1_none:
  assumes "\<forall>row\<in>set m. \<forall>b\<in>set row. \<not> b"
  shows "np_where (any_axis1 m) = []"
  using assms by (auto simp add: np_where_empty_iff any_axis1_def list_ex_iff)

lemma strict_sorted_next:
  fixes W :: "int list"
  assumes "sorted_wrt (<) W" and "Suc i < length W" and "x \<in> set W" and "W ! i < x"
  shows "W ! Suc i \<le> x"
proof -
  from assms(3) obtain j where j: "j < length W" "W ! j = x"
    by (auto simp add: in_set_conv_nth)
  have "\<not> j \<le> i"
  proof
    assume "j \<le> i"
    then have "W ! j \<le> W ! i"
    proof (cases "j = i")
      case True
      then show ?thesis by simp
    next
      case False
      then have "j < i" using \<open>j \<le> i\<close> by simp
      then have "W ! j < W ! i"
        using sorted_wrt_nth_less [OF assms(1), of j i] assms(2) by simp
      then show ?thesis by simp
    qed
    then show False using j assms(4) by simp
  qed
  then have "Suc i \<le> j" by simp
  then have "W ! Suc i \<le> W ! j"
  proof (cases "Suc i = j")
    case True
    then show ?thesis by simp
  next
    case False
    then have "Suc i < j" using \<open>Suc i \<le> j\<close> by simp
    then have "W ! Suc i < W ! j"
      using sorted_wrt_nth_less [OF assms(1), of "Suc i" j] j by simp
    then show ?thesis by simp
  qed
  then show ?thesis using j by simp
qed

lemma strict_sorted_bracket_aux:
  fixes W :: "int list"
  assumes "sorted_wrt (<) W" and "W \<noteq> []" and "hd W \<le> x" and "x < last W"
  shows "\<exists>i. Suc i < length W \<and> W ! i \<le> x \<and> x < W ! Suc i"
  using assms
proof (induction W)
  case Nil
  then show ?case by simp
next
  case (Cons a W)
  show ?case
  proof (cases W)
    case Nil
    then show ?thesis using Cons.prems by simp
  next
    case (Cons b W')
    show ?thesis
    proof (cases "x < b")
      case True
      then have "Suc 0 < length (a # W) \<and> (a # W) ! 0 \<le> x \<and> x < (a # W) ! Suc 0"
        using Cons Cons.prems by simp
      then show ?thesis by blast
    next
      case False
      then have "hd W \<le> x" using Cons by simp
      moreover have "x < last W" using Cons.prems Cons by simp
      moreover have "sorted_wrt (<) W" using Cons.prems by simp
      moreover have "W \<noteq> []" using Cons by simp
      ultimately obtain i where "Suc i < length W \<and> W ! i \<le> x \<and> x < W ! Suc i"
        using Cons.IH by blast
      then have "Suc (Suc i) < length (a # W) \<and> (a # W) ! Suc i \<le> x \<and> x < (a # W) ! Suc (Suc i)"
        by simp
      then show ?thesis by blast
    qed
  qed
qed

lemma strict_sorted_bracket:
  fixes W :: "int list"
  assumes "sorted_wrt (<) W" and "u \<in> set W" and "v \<in> set W" and "u \<le> x" and "x < v"
  shows "\<exists>i. Suc i < length W \<and> W ! i \<le> x \<and> x < W ! Suc i"
proof -
  have "W \<noteq> []" using assms(2) by auto
  moreover have "hd W \<le> x" using strict_sorted_hd_le [OF assms(1,2)] assms(4) by simp
  moreover have "x < last W" using strict_sorted_le_last [OF assms(1,3)] assms(5) by simp
  ultimately show ?thesis using strict_sorted_bracket_aux [OF assms(1)] by blast
qed

lemma np_diff_mem:
  assumes "Suc i < length W"
  shows "W ! Suc i - W ! i \<in> set (np_diff W)"
proof -
  have "i < length (np_diff W)" using assms by (simp add: length_np_diff)
  then have "np_diff W ! i \<in> set (np_diff W)" by (rule nth_mem)
  then show ?thesis using assms by (simp add: nth_np_diff)
qed

lemma np_diff_Max_attained:
  assumes "2 \<le> length W"
  shows "\<exists>i. Suc i < length W \<and> Max (set (np_diff W)) = W ! Suc i - W ! i"
proof -
  have "length (np_diff W) \<noteq> 0" using assms by (simp add: length_np_diff)
  then have ne: "np_diff W \<noteq> []" by simp
  then have "Max (set (np_diff W)) \<in> set (np_diff W)" by (intro Max_in) auto
  then obtain i where "i < length (np_diff W)" "np_diff W ! i = Max (set (np_diff W))"
    by (auto simp add: in_set_conv_nth)
  then have "Suc i < length W \<and> Max (set (np_diff W)) = W ! Suc i - W ! i"
    by (simp add: length_np_diff nth_np_diff)
  then show ?thesis by blast
qed

subsection \<open>The doubled mask\<close>

text \<open>
  \<open>fb\<close> is the per-column mask and \<open>fb @ fb\<close> its doubled copy.  When \<open>fb\<close> has a true
  entry, at \<open>t\<close>, the doubled copy has the two true entries \<open>t\<close> and \<open>t + n\<close>.  A run
  of false values in the doubled copy lies between two true entries, after moving it by
  one period if need be, so its length is below the largest difference of neighbouring
  true indices (\<open>false_run_bound\<close>); and the two true entries with the largest
  difference enclose a run of false values (\<open>max_gap_obtain\<close>).  The complement of an
  arc that covers the true columns is a run of false values, which bounds the length of
  every covering arc from below; the arc that starts after the longest run attains the
  bound.
\<close>

lemma nth_double:
  assumes "k < 2 * length fb"
  shows "(fb @ fb) ! k = fb ! (k mod length fb)"
proof (cases "k < length fb")
  case True
  then show ?thesis by (simp add: nth_append)
next
  case False
  then have "k mod length fb = k - length fb"
    using assms by (simp add: mod_if)
  then show ?thesis using False by (simp add: nth_append)
qed

lemma np_where_mem: "int k \<in> set (np_where cs) \<longleftrightarrow> k < length cs \<and> cs ! k"
  by (auto simp add: set_np_where)

lemma np_where_nth_obtain:
  assumes "i < length (np_where cs)"
  obtains k where "np_where cs ! i = int k" and "k < length cs" and "cs ! k"
proof -
  have "np_where cs ! i \<in> set (np_where cs)" using assms by (rule nth_mem)
  then show ?thesis using that by (auto simp add: set_np_where)
qed

lemma np_where_two:
  assumes "t < length fb" and "fb ! t"
  shows "2 \<le> length (np_where (fb @ fb))"
proof -
  let ?W = "np_where (fb @ fb)"
  have a: "int t \<in> set ?W" using assms by (simp add: np_where_mem nth_append)
  have b: "int (t + length fb) \<in> set ?W"
    unfolding np_where_mem using assms by (simp add: nth_append)
  have "{int t, int (t + length fb)} \<subseteq> set ?W" using a b by simp
  then have "card {int t, int (t + length fb)} \<le> card (set ?W)"
    by (intro card_mono) auto
  moreover have "int t \<noteq> int (t + length fb)" using assms(1) by auto
  then have "card {int t, int (t + length fb)} = 2" by (simp add: card_insert_if)
  moreover have "card (set ?W) \<le> length ?W" by (rule card_length)
  ultimately show ?thesis by simp
qed

lemma gap_of_bracketed_run:
  assumes u: "int u \<in> set (np_where cs)" and v: "int v \<in> set (np_where cs)"
    and "u < s" and "s + r \<le> v" and run: "\<forall>i<r. \<not> cs ! (s + i)"
  shows "int r + 1 \<le> Max (set (np_diff (np_where cs)))"
proof -
  let ?W = "np_where cs"
  have srt: "sorted_wrt (<) ?W" by (rule sorted_np_where)
  have "int u \<le> int s - 1" and "int s - 1 < int v" using assms(3,4) by simp_all
  then obtain i where i: "Suc i < length ?W" "?W ! i \<le> int s - 1" "int s - 1 < ?W ! Suc i"
    using strict_sorted_bracket [OF srt u v] by blast
  obtain k where k: "?W ! Suc i = int k" "k < length cs" "cs ! k"
    using i(1) by (rule np_where_nth_obtain)
  have "s \<le> k" using i(3) k(1) by simp
  have "\<not> k < s + r"
  proof
    assume "k < s + r"
    then have "k - s < r" and "s + (k - s) = k" using \<open>s \<le> k\<close> by simp_all
    then show False using run k(3) by metis
  qed
  then have "int r + 1 \<le> ?W ! Suc i - ?W ! i" using i(2) k(1) by simp
  moreover have "?W ! Suc i - ?W ! i \<le> Max (set (np_diff ?W))"
    using np_diff_mem [OF i(1)] by (intro Max_ge) auto
  ultimately show ?thesis by simp
qed

lemma false_run_bound:
  assumes t: "t < length fb" "fb ! t"
    and fit: "s + r \<le> 2 * length fb" and run: "\<forall>i<r. \<not> (fb @ fb) ! (s + i)"
  shows "int r + 1 \<le> Max (set (np_diff (np_where (fb @ fb))))"
proof -
  let ?n = "length fb"
  let ?D = "fb @ fb"
  have ut: "int t \<in> set (np_where ?D)" using t by (simp add: np_where_mem nth_append)
  have vt: "int (t + ?n) \<in> set (np_where ?D)"
    unfolding np_where_mem using t by (simp add: nth_append)
  have per: "?D ! (k + ?n) = ?D ! k" if "k < ?n" for k
    using that by (simp add: nth_append)
  have out: "\<not> (s \<le> k \<and> k < s + r)" if "?D ! k" for k
  proof
    assume "s \<le> k \<and> k < s + r"
    then have "k - s < r" and "s + (k - s) = k" by auto
    then show False using run that by metis
  qed
  have Dt: "?D ! t" and Dtn: "?D ! (t + ?n)" using t by (simp_all add: nth_append)
  consider (A) "t < s" "s + r \<le> t + ?n" | (B) "t + ?n < s" | (C) "s + r \<le> t"
    using out [OF Dt] out [OF Dtn] by linarith
  then show ?thesis
  proof cases
    case A
    then show ?thesis using gap_of_bracketed_run [OF ut vt _ _ run] by simp
  next
    case B
    have run': "\<forall>i<r. \<not> ?D ! ((s - ?n) + i)"
    proof (intro allI impI)
      fix i assume "i < r"
      then have "\<not> ?D ! (s + i)" using run by simp
      moreover have "s + i = ((s - ?n) + i) + ?n" using B by simp
      moreover have "(s - ?n) + i < ?n" using B fit \<open>i < r\<close> by simp
      ultimately show "\<not> ?D ! ((s - ?n) + i)" using per by metis
    qed
    have "t < s - ?n" and "(s - ?n) + r \<le> t + ?n" using B fit by simp_all
    then show ?thesis using gap_of_bracketed_run [OF ut vt _ _ run'] by simp
  next
    case C
    have run': "\<forall>i<r. \<not> ?D ! ((s + ?n) + i)"
    proof (intro allI impI)
      fix i assume "i < r"
      then have "\<not> ?D ! (s + i)" using run by simp
      moreover have "(s + ?n) + i = (s + i) + ?n" by simp
      moreover have "s + i < ?n" using C t \<open>i < r\<close> by simp
      ultimately show "\<not> ?D ! ((s + ?n) + i)" using per by metis
    qed
    have "t < s + ?n" and "(s + ?n) + r \<le> t + ?n" using C t by simp_all
    then show ?thesis using gap_of_bracketed_run [OF ut vt _ _ run'] by simp
  qed
qed

lemma max_gap_obtain:
  assumes t: "t < length fb" "fb ! t"
  obtains p q where "p < q" and "q < 2 * length fb" and "q \<le> p + length fb"
    and "(fb @ fb) ! q"
    and "\<forall>k. p < k \<and> k < q \<longrightarrow> \<not> (fb @ fb) ! k"
    and "Max (set (np_diff (np_where (fb @ fb)))) = int q - int p"
proof -
  let ?n = "length fb"
  let ?D = "fb @ fb"
  let ?W = "np_where ?D"
  have srt: "sorted_wrt (<) ?W" by (rule sorted_np_where)
  obtain i where i: "Suc i < length ?W" "Max (set (np_diff ?W)) = ?W ! Suc i - ?W ! i"
    using np_diff_Max_attained [OF np_where_two [OF t]] by blast
  have i': "i < length ?W" using i(1) by simp
  obtain p where p: "?W ! i = int p" "p < length ?D" "?D ! p"
    using i' by (rule np_where_nth_obtain)
  obtain q where q: "?W ! Suc i = int q" "q < length ?D" "?D ! q"
    using i(1) by (rule np_where_nth_obtain)
  have "?W ! i < ?W ! Suc i"
    using sorted_wrt_nth_less [OF srt, of i "Suc i"] i(1) by simp
  then have pq: "p < q" using p(1) q(1) by simp
  have nxt: "q \<le> k" if "k < length ?D" "?D ! k" "p < k" for k
  proof -
    have "int k \<in> set ?W" using that by (simp add: np_where_mem)
    moreover have "?W ! i < int k" using that p(1) by simp
    ultimately have "?W ! Suc i \<le> int k" using strict_sorted_next [OF srt i(1)] by blast
    then show ?thesis using q(1) by simp
  qed
  have between: "\<forall>k. p < k \<and> k < q \<longrightarrow> \<not> ?D ! k"
  proof (intro allI impI notI)
    fix k assume a: "p < k \<and> k < q" and "?D ! k"
    then have "q \<le> k" using nxt [of k] q(2) by simp
    then show False using a by simp
  qed
  have le: "q \<le> p + ?n"
  proof (cases "p < ?n")
    case True
    then have "?D ! (p + ?n)" using p(3) by (simp add: nth_append)
    moreover have "p + ?n < length ?D" and "p < p + ?n" using True by auto
    ultimately show ?thesis using nxt [of "p + ?n"] by blast
  next
    case False
    then show ?thesis using q(2) by simp
  qed
  show ?thesis
    using that [OF pq _ le q(3) between] q(2) i(2) p(1) q(1) by simp
qed

lemma list_all_upt: "list_all P [a..<b] \<longleftrightarrow> (\<forall>i. a \<le> i \<and> i < b \<longrightarrow> P i)"
  by (auto simp add: list_all_iff)

lemma list_ex_upt: "list_ex P [a..<b] \<longleftrightarrow> (\<exists>i. a \<le> i \<and> i < b \<and> P i)"
  by (auto simp add: list_ex_iff)

lemma false_run_iff:
  "false_run cs s r \<longleftrightarrow> s + r \<le> length cs \<and> (\<forall>i<r. \<not> cs ! (s + i))"
proof -
  have "(\<forall>i. s \<le> i \<and> i < s + r \<longrightarrow> \<not> cs ! i) \<longleftrightarrow> (\<forall>i<r. \<not> cs ! (s + i))"
  proof
    assume h: "\<forall>i. s \<le> i \<and> i < s + r \<longrightarrow> \<not> cs ! i"
    show "\<forall>i<r. \<not> cs ! (s + i)" using h by simp
  next
    assume h: "\<forall>i<r. \<not> cs ! (s + i)"
    show "\<forall>i. s \<le> i \<and> i < s + r \<longrightarrow> \<not> cs ! i"
    proof (intro allI impI)
      fix i assume "s \<le> i \<and> i < s + r"
      then have "i - s < r" and "s + (i - s) = i" by auto
      then show "\<not> cs ! i" using h by metis
    qed
  qed
  then show ?thesis by (simp add: false_run_def list_all_upt)
qed

lemma longest_false_run_doubled:
  assumes t: "t < length fb" "fb ! t"
  shows "\<exists>r. r < length fb \<and>
           Max (set (np_diff (np_where (fb @ fb)))) = int r + 1 \<and>
           is_longest_false_run (fb @ fb) r"
proof -
  let ?n = "length fb"
  let ?D = "fb @ fb"
  obtain p q where pq: "p < q" "q < 2 * ?n" "q \<le> p + ?n" "?D ! q"
      "\<forall>k. p < k \<and> k < q \<longrightarrow> \<not> ?D ! k"
      "Max (set (np_diff (np_where ?D))) = int q - int p"
    using max_gap_obtain [OF t] by blast
  define r where "r = q - p - 1"
  have r1: "r < ?n" using pq(1,3) t(1) by (simp add: r_def)
  have M: "Max (set (np_diff (np_where ?D))) = int r + 1"
    using pq(1,6) by (simp add: r_def)
  have run: "false_run ?D (Suc p) r"
    using pq(1,2,5) by (simp add: false_run_iff r_def)
  have ex: "list_ex (\<lambda>s. false_run ?D s r) [0..<Suc (length ?D)]"
    unfolding list_ex_upt using run pq(1,2) by (intro exI [of _ "Suc p"]) simp
  have no: "\<not> false_run ?D s r'" if "r < r'" for s r'
  proof
    assume "false_run ?D s r'"
    then have "s + r' \<le> 2 * ?n" and "\<forall>i<r'. \<not> ?D ! (s + i)"
      by (simp_all add: false_run_iff)
    then have "int r' + 1 \<le> int r + 1"
      using false_run_bound [OF t, of s r'] M by simp
    then show False using that by simp
  qed
  have all: "list_all (\<lambda>r'. list_all (\<lambda>s. \<not> false_run ?D s r') [0..<Suc (length ?D)])
        [Suc r..<Suc (length ?D)]"
    unfolding list_all_upt using no by simp
  show ?thesis using r1 M ex all by (auto simp add: is_longest_false_run_def)
qed

lemma arc_covers_iff:
  "arc_covers bs a len \<longleftrightarrow>
     (\<forall>j<length bs. bs ! j \<longrightarrow> (j + length bs - a) mod length bs < len)"
  by (simp add: arc_covers_def list_all_upt)

lemma arc_complement_false:
  assumes a: "a < length fb" and cov: "arc_covers fb a len" and len: "len < length fb"
  shows "false_run (fb @ fb) (a + len) (length fb - len)"
proof -
  let ?n = "length fb"
  have "\<not> (fb @ fb) ! (a + len + i)" if i: "i < ?n - len" for i
  proof -
    let ?j = "(a + len + i) mod ?n"
    have n0: "0 < ?n" using a by auto
    have j: "?j < ?n" using n0 by simp
    have "(?j + ?n - a) mod ?n = (?j + (?n - a)) mod ?n" using a by simp
    also have "\<dots> = (a + len + i + (?n - a)) mod ?n" by (simp add: mod_add_left_eq)
    also have "a + len + i + (?n - a) = len + i + ?n" using a by simp
    also have "(len + i + ?n) mod ?n = len + i" using i by simp
    finally have "\<not> (?j + ?n - a) mod ?n < len" by simp
    then have "\<not> fb ! ?j" using cov j by (auto simp add: arc_covers_iff)
    moreover have "a + len + i < 2 * ?n" using a i by simp
    ultimately show ?thesis by (simp add: nth_double)
  qed
  then show ?thesis using a len by (simp add: false_run_iff)
qed

lemma shortest_arc_doubled:
  assumes t: "t < length fb" "fb ! t"
  shows "\<exists>r. r < length fb \<and>
           Max (set (np_diff (np_where (fb @ fb)))) = int r + 1 \<and>
           is_shortest_arc fb (length fb - r)"
proof -
  let ?n = "length fb"
  let ?D = "fb @ fb"
  have n0: "0 < ?n" using t(1) by auto
  obtain p q where pq: "p < q" "q < 2 * ?n" "q \<le> p + ?n" "?D ! q"
      "\<forall>k. p < k \<and> k < q \<longrightarrow> \<not> ?D ! k"
      "Max (set (np_diff (np_where ?D))) = int q - int p"
    using max_gap_obtain [OF t] by blast
  define r where "r = q - p - 1"
  have r1: "r < ?n" using pq(1,3) t(1) by (simp add: r_def)
  have M: "Max (set (np_diff (np_where ?D))) = int r + 1"
    using pq(1,6) by (simp add: r_def)
  define a where "a = q mod ?n"
  have a: "a < ?n" using n0 by (simp add: a_def)
  have cov: "arc_covers fb a (?n - r)"
    unfolding arc_covers_iff
  proof (intro allI impI)
    fix j assume j: "j < ?n" and fbj: "fb ! j"
    define d where "d = (j + ?n - a) mod ?n"
    have d: "d < ?n" using n0 by (simp add: d_def)
    show "(j + ?n - a) mod ?n < ?n - r"
    proof (rule ccontr)
      assume "\<not> (j + ?n - a) mod ?n < ?n - r"
      then have dge: "?n - r \<le> d" by (simp add: d_def)
      define k where "k = q + d - ?n"
      have kn: "k + ?n = q + d" using dge r1 pq(1) by (simp add: k_def r_def)
      have "p < k" using dge r1 pq(1) kn by (simp add: r_def)
      moreover have "k < q" using d kn by simp
      ultimately have Dk: "\<not> ?D ! k" using pq(5) by simp
      have "(a + d) mod ?n = (a + (j + ?n - a)) mod ?n"
        by (simp add: d_def mod_add_right_eq)
      also have "a + (j + ?n - a) = j + ?n" using a by simp
      also have "(j + ?n) mod ?n = j" using j by simp
      finally have ad: "(a + d) mod ?n = j" .
      have "k mod ?n = (k + ?n) mod ?n" by simp
      also have "\<dots> = (q + d) mod ?n" using kn by simp
      also have "\<dots> = (a + d) mod ?n" by (simp add: a_def mod_add_left_eq)
      finally have "k mod ?n = j" using ad by simp
      moreover have "k < 2 * ?n" using \<open>k < q\<close> pq(2) by simp
      ultimately have "?D ! k" using fbj by (simp add: nth_double)
      then show False using Dk by simp
    qed
  qed
  have ex: "list_ex (\<lambda>a. arc_covers fb a (?n - r)) [0..<?n]"
    unfolding list_ex_upt using cov a by blast
  have no: "\<not> arc_covers fb b l" if "l < ?n - r" and "b < ?n" for b l
  proof
    assume c: "arc_covers fb b l"
    have "l < ?n" using that(1) by simp
    then have "false_run ?D (b + l) (?n - l)"
      using arc_complement_false [OF that(2) c] by simp
    then have "b + l + (?n - l) \<le> 2 * ?n" and "\<forall>i<?n - l. \<not> ?D ! (b + l + i)"
      by (simp_all add: false_run_iff)
    then have "int (?n - l) + 1 \<le> int r + 1"
      using false_run_bound [OF t, of "b + l" "?n - l"] M by simp
    then show False using that(1) by simp
  qed
  have all: "list_all (\<lambda>l. list_all (\<lambda>a. \<not> arc_covers fb a l) [0..<?n]) [0..<?n - r]"
    unfolding list_all_upt using no by simp
  show ?thesis using r1 M ex all by (auto simp add: is_shortest_arc_def)
qed

subsection \<open>Rows and columns of the mask\<close>

text \<open>
  A mask is rectangular when its rows have one length.  A rectangular mask with a true
  node has a true column; the first and the last index \<open>get_errors\<close> reads are the first
  and the last row with a true node.
\<close>

lemma length_any_axis1: "length (any_axis1 m) = length m"
  by (simp add: any_axis1_def)

lemma nth_any_axis1: "r < length m \<Longrightarrow> any_axis1 m ! r \<longleftrightarrow> (\<exists>b\<in>set (m ! r). b)"
  by (simp add: any_axis1_def list_ex_iff)

lemma length_any_axis0:
  assumes "m \<noteq> []" and "\<forall>row\<in>set m. length row = ncols"
  shows "length (any_axis0 m) = ncols"
  using assms by (cases m) (simp_all add: any_axis0_def)

lemma nth_any_axis0:
  assumes "m \<noteq> []" and "\<forall>row\<in>set m. length row = ncols" and "j < ncols"
  shows "any_axis0 m ! j \<longleftrightarrow> (\<exists>row\<in>set m. row ! j)"
  using assms by (cases m) (simp_all add: any_axis0_def list_ex_iff)

lemma any_axis0_has_true:
  assumes rect: "\<forall>row\<in>set m. length row = ncols" and tr: "\<exists>row\<in>set m. \<exists>b\<in>set row. b"
  shows "\<exists>t<length (any_axis0 m). any_axis0 m ! t"
proof -
  from tr obtain row where row: "row \<in> set m" "\<exists>b\<in>set row. b" by blast
  then obtain j where j: "j < length row" "row ! j" by (auto simp add: in_set_conv_nth)
  have ne: "m \<noteq> []" using row(1) by auto
  have jn: "j < ncols" using j(1) rect row(1) by simp
  have "any_axis0 m ! j" using nth_any_axis0 [OF ne rect jn] row(1) j(2) by blast
  then show ?thesis using jn length_any_axis0 [OF ne rect] by auto
qed

lemma lag_rows:
  assumes tr: "\<exists>row\<in>set m. \<exists>b\<in>set row. b"
  shows "\<exists>f l. f \<le> l \<and> l < length m \<and> (\<exists>b\<in>set (m ! f). b) \<and> (\<exists>b\<in>set (m ! l). b) \<and>
           (\<forall>r<length m. (\<exists>b\<in>set (m ! r). b) \<longrightarrow> f \<le> r \<and> r \<le> l) \<and>
           item_last (np_where (any_axis1 m)) = Inr (int l) \<and>
           item (np_where (any_axis1 m)) 0 = Inr (int f)"
proof -
  let ?W = "np_where (any_axis1 m)"
  have srt: "sorted_wrt (<) ?W" by (rule sorted_np_where)
  have mem: "int r \<in> set ?W \<longleftrightarrow> r < length m \<and> (\<exists>b\<in>set (m ! r). b)" for r
    using nth_any_axis1 [of r m] by (auto simp add: np_where_mem length_any_axis1)
  from tr obtain row where row: "row \<in> set m" "\<exists>b\<in>set row. b" by blast
  from row(1) obtain r0 where "r0 < length m" "m ! r0 = row"
    by (auto simp add: in_set_conv_nth)
  then have r0: "r0 < length m" "\<exists>b\<in>set (m ! r0). b" using row(2) by simp_all
  then have r0W: "int r0 \<in> set ?W" using mem by blast
  then have ne: "?W \<noteq> []" by auto
  have "hd ?W \<in> set ?W" using ne by simp
  then obtain f where f: "hd ?W = int f" "int f \<in> set ?W" by (auto simp add: set_np_where)
  have "last ?W \<in> set ?W" using ne by simp
  then obtain l where l: "last ?W = int l" "int l \<in> set ?W" by (auto simp add: set_np_where)
  have bounds: "f \<le> r \<and> r \<le> l" if "int r \<in> set ?W" for r
    using strict_sorted_hd_le [OF srt that] strict_sorted_le_last [OF srt that] f(1) l(1)
    by simp
  have "item_last ?W = Inr (int l)" using ne l(1) by (simp add: item_last_def)
  moreover have "item ?W 0 = Inr (int f)" using ne f(1) by (simp add: item_def hd_conv_nth)
  moreover have "f \<le> l" using bounds [OF r0W] by simp
  moreover have "l < length m" and "\<exists>b\<in>set (m ! l). b" using l(2) mem [of l] by simp_all
  moreover have "\<exists>b\<in>set (m ! f). b" using f(2) mem [of f] by simp
  moreover have "\<forall>r<length m. (\<exists>b\<in>set (m ! r). b) \<longrightarrow> f \<le> r \<and> r \<le> l"
    using bounds mem by blast
  ultimately show ?thesis by blast
qed

subsection \<open>From the error surface to the mask\<close>

text \<open>
  On a grid of at least two lags and two angles, and with a surface type of \<open>min\<close> or
  \<open>max\<close>, \<open>get_errors\<close> is \<open>get_errors_mask\<close> at the steps between the first two lags
  and the first two angles.  On a grid with a single lag or a single angle there is no
  step to read, and \<open>get_errors\<close> raises whatever the mask.
\<close>

lemma get_errors_via_mask:
  assumes "2 \<le> length lags_m" and "2 \<le> length degs_m"
    and "conf_mask surftype errsurf conf95level = Inr confbool"
  shows "get_errors degs_m lags_m errsurf conf95level surftype
         = get_errors_mask (lags_m ! 1 - lags_m ! 0) (degs_m ! 1 - degs_m ! 0) confbool"
proof -
  have "1 < length lags_m" and "0 < length lags_m" and "1 < length degs_m" and "0 < length degs_m"
    using assms(1,2) by auto
  then show ?thesis
    using assms(3) by (simp add: get_errors_def item_def bind_e_def Let_def)
qed

lemma get_errors_short_grid:
  assumes "length lags_m < 2 \<or> length degs_m < 2"
  shows "get_errors degs_m lags_m errsurf conf95level surftype = Inl IndexError"
  using assms by (auto simp add: get_errors_def item_def bind_e_def Let_def)

subsection \<open>Degenerate masks\<close>

text \<open>
  On a mask that is true at every node, the first and last true row are the first and
  last row, and the doubled column mask has no gap: the error bars are a quarter of the
  full width of the grid in each direction.
\<close>

lemma get_errors_mask_full:
  assumes h: "confbool \<noteq> []" "0 < ncols" "\<forall>row\<in>set confbool. row = replicate ncols True"
  shows "get_errors_mask lag_step fast_step confbool
        = Inr (real ncols * fast_step * 0.25, real (length confbool) * lag_step * 0.25)"
proof -
  let ?n = "length confbool"
  have a1: "any_axis1 confbool = replicate ?n True"
    using h any_axis1_full [of confbool ncols] by simp
  have a0: "any_axis0 confbool = replicate ncols True"
    using h any_axis0_full [of confbool ncols] by simp
  have n: "0 < ?n" using h by simp
  have w1: "np_where (any_axis1 confbool) = map int [0..<?n]"
    by (simp add: a1 np_where_all_true)
  have ne: "[0..<?n] \<noteq> []" using n by simp
  have pred: "int (?n - Suc 0) = int ?n - 1"
    using n by (cases ?n) simp_all
  have lst: "item_last (np_where (any_axis1 confbool)) = Inr (int ?n - 1)"
    using n ne by (simp add: w1 item_last_def last_map last_upt pred)
  have fst: "item (np_where (any_axis1 confbool)) 0 = Inr 0"
    using n by (simp add: w1 item_def)
  have cyc: "any_axis0 confbool @ any_axis0 confbool = replicate (ncols + ncols) True"
    by (simp add: a0 replicate_add)
  have mx: "np_max (np_diff (np_where (any_axis0 confbool @ any_axis0 confbool))) = Inr 1"
    using h by (simp add: cyc np_where_all_true np_diff_upt np_max_ones)
  show ?thesis
    using mx by (simp add: get_errors_mask_def Let_def lst fst bind_e_def a0)
qed

text \<open>On a mask with no true node, \<open>truth\<close> is empty and \<open>truth[-1]\<close> raises.\<close>

lemma get_errors_mask_empty:
  assumes "\<forall>row\<in>set confbool. \<forall>b\<in>set row. \<not> b"
  shows "get_errors_mask lag_step fast_step confbool = Inl IndexError"
proof -
  from assms have "np_where (any_axis1 confbool) = []" by (rule any_axis1_none)
  then show ?thesis
    by (simp add: get_errors_mask_def Let_def item_last_def bind_e_def)
qed

text \<open>
  On an empty mask the search for the first and last true row has nothing to index: for
  a surface none of whose nodes lies inside the confidence level, \<open>get_errors\<close> raises
  \<open>IndexError\<close>.
\<close>

theorem get_errors_empty_mask_counterexample:
  "get_errors [- 90, 0] [0, 1] [[5, 6], [7, 8]] 1 (Some ''min'') = Inl IndexError"
  by (simp add: get_errors_def item_def bind_e_def conf_mask_def get_errors_mask_def
      any_axis1_def np_where_def item_last_def Let_def)

text \<open>
  Claim C2, amended.  Let \<open>get_errors\<close> be called with a surface type of \<open>min\<close> or
  \<open>max\<close>, so that the confidence mask \<open>confbool\<close> is formed.  On a search grid of at
  least two lags and two angles, when the mask spans the full grid (every node true, at
  least one row and one column), \<open>get_errors\<close> returns without raising: the fast error is
  a quarter of the angle step \<open>degs[1] - degs[0]\<close> times the number of columns, and the
  lag error a quarter of the lag step \<open>lags[1] - lags[0]\<close> times the number of rows.
  When the mask is empty (no node true) there is no sentinel value: \<open>get_errors\<close> raises
  \<open>IndexError\<close>.  On a grid of a single lag or a single angle \<open>get_errors\<close> has no step
  to read and raises \<open>IndexError\<close> whatever the mask, the full one included.
\<close>

theorem get_errors_degenerate_masks:
  assumes mask: "conf_mask surftype errsurf conf95level = Inr confbool"
  shows "(2 \<le> length lags_m \<and> 2 \<le> length degs_m \<and>
          confbool \<noteq> [] \<and> 0 < ncols \<and> (\<forall>row\<in>set confbool. row = replicate ncols True) \<longrightarrow>
            get_errors degs_m lags_m errsurf conf95level surftype
              = Inr (real ncols * (degs_m ! 1 - degs_m ! 0) * 0.25,
                     real (length confbool) * (lags_m ! 1 - lags_m ! 0) * 0.25)) \<and>
         ((\<forall>row\<in>set confbool. \<forall>b\<in>set row. \<not> b) \<longrightarrow>
            get_errors degs_m lags_m errsurf conf95level surftype = Inl IndexError) \<and>
         (length lags_m < 2 \<or> length degs_m < 2 \<longrightarrow>
            get_errors degs_m lags_m errsurf conf95level surftype = Inl IndexError)"
proof (intro conjI impI)
  assume h: "2 \<le> length lags_m \<and> 2 \<le> length degs_m \<and>
          confbool \<noteq> [] \<and> 0 < ncols \<and> (\<forall>row\<in>set confbool. row = replicate ncols True)"
  then have "get_errors degs_m lags_m errsurf conf95level surftype
         = get_errors_mask (lags_m ! 1 - lags_m ! 0) (degs_m ! 1 - degs_m ! 0) confbool"
    using mask by (simp add: get_errors_via_mask)
  also have "\<dots> = Inr (real ncols * (degs_m ! 1 - degs_m ! 0) * 0.25,
                     real (length confbool) * (lags_m ! 1 - lags_m ! 0) * 0.25)"
    using h get_errors_mask_full [of confbool ncols] by blast
  finally show "get_errors degs_m lags_m errsurf conf95level surftype
              = Inr (real ncols * (degs_m ! 1 - degs_m ! 0) * 0.25,
                     real (length confbool) * (lags_m ! 1 - lags_m ! 0) * 0.25)" .
next
  assume e: "\<forall>row\<in>set confbool. \<forall>b\<in>set row. \<not> b"
  show "get_errors degs_m lags_m errsurf conf95level surftype = Inl IndexError"
  proof (cases "2 \<le> length lags_m \<and> 2 \<le> length degs_m")
    case True
    then have "get_errors degs_m lags_m errsurf conf95level surftype
         = get_errors_mask (lags_m ! 1 - lags_m ! 0) (degs_m ! 1 - degs_m ! 0) confbool"
      using mask by (simp add: get_errors_via_mask)
    then show ?thesis using e by (simp add: get_errors_mask_empty)
  next
    case False
    then have "length lags_m < 2 \<or> length degs_m < 2" by auto
    then show ?thesis by (rule get_errors_short_grid)
  qed
next
  assume "length lags_m < 2 \<or> length degs_m < 2"
  then show "get_errors degs_m lags_m errsurf conf95level surftype = Inl IndexError"
    by (rule get_errors_short_grid)
qed

theorem get_errors_degenerate_masks_witness:
  "get_errors [- 90, 0] [0, 1, 2] [[0, 0], [0, 0], [0, 0]] 1 (Some ''min'') = Inr (45, 3 / 4) \<and>
   get_errors [- 90, 0] [0, 1] [[2, 3], [4, 5]] 9 (Some ''max'') = Inl IndexError \<and>
   get_errors [- 90] [0, 2, 4] [[0], [0], [0]] 1 (Some ''min'') = Inl IndexError"
  using get_errors_degenerate_masks [of "Some ''min''" "[[0, 0], [0, 0], [0, 0]]" 1
        "[[True, True], [True, True], [True, True]]" "[0, 1, 2]" "[- 90, 0]" 2]
    get_errors_degenerate_masks [of "Some ''max''" "[[2, 3], [4, 5]]" 9
        "[[False, False], [False, False]]" "[0, 1]" "[- 90, 0]" 2]
    get_errors_degenerate_masks [of "Some ''min''" "[[0], [0], [0]]" 1
        "[[True], [True], [True]]" "[0, 2, 4]" "[- 90]" 1]
  by (simp add: conf_mask_def eval_nat_numeral)

subsection \<open>The lag error\<close>

text \<open>
  The lag error does not come from the line of the mask through the optimum.  On the
  surface below, read as one to be minimised, the optimum is at row 0 and column 0, and
  the mask is true at row 0 of column 0 and at row 3 of column 1.  In the column of the
  optimum the first and the last true row are both row 0, which gives a lag error of 0
  (or of a quarter step when both end rows are counted); \<open>get_errors\<close> returns 1, four
  rows times a quarter step.
\<close>

theorem get_errors_lag_counterexample:
  "get_errors [- 90, 0] [0, 1, 2, 3] [[0, 9], [9, 9], [9, 9], [9, 1]] 1 (Some ''min'')
     = Inr (45, 1) \<and>
   conf_mask (Some ''min'') [[0, 9], [9, 9], [9, 9], [9, 1]] 1
     = Inr [[True, False], [False, False], [False, False], [False, True]] \<and>
   get_errors [- 90, 0] [0, 1, 2, 3] [[0, 9], [9, 9], [9, 9], [9, 1]] 1 (Some ''min'')
     \<noteq> Inr (45, real_of_int (span_through_optimum
           [[True, False], [False, False], [False, False], [False, True]] 0) * 1 * 0.25) \<and>
   get_errors [- 90, 0] [0, 1, 2, 3] [[0, 9], [9, 9], [9, 9], [9, 1]] 1 (Some ''min'')
     \<noteq> Inr (45, real_of_int (span_through_optimum
           [[True, False], [False, False], [False, False], [False, True]] 0 + 1) * 1 * 0.25)"
  by (simp add: get_errors_def item_def bind_e_def conf_mask_def get_errors_mask_def
      any_axis1_def any_axis0_def np_where_def item_last_def np_diff_def np_max_def
      span_through_optimum_def Let_def)

text \<open>
  Claim C4, amended.  For every mask with a true node, the lag error returned by
  \<open>get_errors\<close> is a quarter of the lag step times the number of rows from the first to
  the last row that holds a true node in any column, both rows counted (last index less
  first index plus one).  The rows are taken over the whole mask; the optimum plays no
  part.
\<close>

theorem get_errors_lag_span:
  assumes "\<forall>row\<in>set confbool. length row = ncols"
    and "\<exists>row\<in>set confbool. \<exists>b\<in>set row. b"
  shows "\<exists>f l fdfast. f \<le> l \<and> l < length confbool \<and>
           (\<exists>b\<in>set (confbool ! f). b) \<and> (\<exists>b\<in>set (confbool ! l). b) \<and>
           (\<forall>r<length confbool. (\<exists>b\<in>set (confbool ! r). b) \<longrightarrow> f \<le> r \<and> r \<le> l) \<and>
           get_errors_mask lag_step fast_step confbool
             = Inr (fdfast, (real l - real f + 1) * lag_step * 0.25)"
proof -
  let ?fb = "any_axis0 confbool"
  from lag_rows [OF assms(2)] obtain f where
    "\<exists>l. f \<le> l \<and> l < length confbool \<and> (\<exists>b\<in>set (confbool ! f). b) \<and>
       (\<exists>b\<in>set (confbool ! l). b) \<and>
       (\<forall>r<length confbool. (\<exists>b\<in>set (confbool ! r). b) \<longrightarrow> f \<le> r \<and> r \<le> l) \<and>
       item_last (np_where (any_axis1 confbool)) = Inr (int l) \<and>
       item (np_where (any_axis1 confbool)) 0 = Inr (int f)" ..
  then obtain l where fl0:
    "f \<le> l \<and> l < length confbool \<and> (\<exists>b\<in>set (confbool ! f). b) \<and>
       (\<exists>b\<in>set (confbool ! l). b) \<and>
       (\<forall>r<length confbool. (\<exists>b\<in>set (confbool ! r). b) \<longrightarrow> f \<le> r \<and> r \<le> l) \<and>
       item_last (np_where (any_axis1 confbool)) = Inr (int l) \<and>
       item (np_where (any_axis1 confbool)) 0 = Inr (int f)" ..
  then have fl: "f \<le> l" "l < length confbool"
      "\<exists>b\<in>set (confbool ! f). b" "\<exists>b\<in>set (confbool ! l). b"
      "\<forall>r<length confbool. (\<exists>b\<in>set (confbool ! r). b) \<longrightarrow> f \<le> r \<and> r \<le> l"
      "item_last (np_where (any_axis1 confbool)) = Inr (int l)"
      "item (np_where (any_axis1 confbool)) 0 = Inr (int f)"
    by blast+
  obtain t where t: "t < length ?fb" "?fb ! t"
    using any_axis0_has_true [OF assms] by blast
  have "np_diff (np_where (?fb @ ?fb)) \<noteq> []"
    using np_where_two [OF t] length_np_diff [of "np_where (?fb @ ?fb)"] by auto
  then obtain mx where mx: "np_max (np_diff (np_where (?fb @ ?fb))) = Inr mx"
    using np_max_eq_Max by blast
  have res: "get_errors_mask lag_step fast_step confbool
      = Inr (real_of_int (int (length ?fb) - (mx - 1)) * fast_step * 0.25,
             (real l - real f + 1) * lag_step * 0.25)"
    using mx fl(6,7) by (simp add: get_errors_mask_def Let_def bind_e_def)
  show ?thesis
    using fl(1-5) res by (intro exI [of _ f] exI [of _ l] exI conjI) assumption+
qed

theorem get_errors_lag_span_witness:
  "\<exists>f l fdfast. f \<le> l \<and> l < length [[False, True], [True, False], [False, False]] \<and>
     (\<exists>b\<in>set ([[False, True], [True, False], [False, False]] ! f). b) \<and>
     (\<exists>b\<in>set ([[False, True], [True, False], [False, False]] ! l). b) \<and>
     (\<forall>r<length [[False, True], [True, False], [False, False]].
        (\<exists>b\<in>set ([[False, True], [True, False], [False, False]] ! r). b) \<longrightarrow> f \<le> r \<and> r \<le> l) \<and>
     get_errors_mask 1 1 [[False, True], [True, False], [False, False]]
       = Inr (fdfast, (real l - real f + 1) * 1 * 0.25)"
  using get_errors_lag_span [of "[[False, True], [True, False], [False, False]]" 2 1 1]
  by simp

subsection \<open>The fast error\<close>

text \<open>
  Claim C3.  For every mask with a true node, the fast error returned by \<open>get_errors\<close>
  is a quarter of the angle step times the length of the shortest cyclic arc of columns
  that contains every column with a true node; the number of columns less that length
  is the length of the longest run of false values in the doubled copy of the
  per-column mask, which is what the code computes from the largest difference of
  neighbouring true indices.  The witness below is the mask of the confidence test of
  the specification: 90 columns, true at columns 0, 1, 88 and 89, whose shortest arc has
  length 4.
\<close>

theorem get_errors_fast_arc:
  assumes "\<forall>row\<in>set confbool. length row = ncols"
    and "\<exists>row\<in>set confbool. \<exists>b\<in>set row. b"
  shows "\<exists>len fdlag.
           get_errors_mask lag_step fast_step confbool
             = Inr (fast_step / 4 * real len, fdlag) \<and>
           is_shortest_arc (any_axis0 confbool) len \<and>
           len \<le> length (any_axis0 confbool) \<and>
           is_longest_false_run (any_axis0 confbool @ any_axis0 confbool)
             (length (any_axis0 confbool) - len)"
proof -
  let ?fb = "any_axis0 confbool"
  let ?M = "Max (set (np_diff (np_where (?fb @ ?fb))))"
  obtain f l where fl: "f \<le> l"
      "item_last (np_where (any_axis1 confbool)) = Inr (int l)"
      "item (np_where (any_axis1 confbool)) 0 = Inr (int f)"
    using lag_rows [OF assms(2)] by blast
  obtain t where t: "t < length ?fb" "?fb ! t"
    using any_axis0_has_true [OF assms] by blast
  have "np_diff (np_where (?fb @ ?fb)) \<noteq> []"
    using np_where_two [OF t] length_np_diff [of "np_where (?fb @ ?fb)"] by auto
  then have mx: "np_max (np_diff (np_where (?fb @ ?fb))) = Inr ?M"
    by (rule np_max_eq_Max)
  obtain r where r: "r < length ?fb" "?M = int r + 1" "is_shortest_arc ?fb (length ?fb - r)"
    using shortest_arc_doubled [OF t] by blast
  obtain r' where r': "?M = int r' + 1" "is_longest_false_run (?fb @ ?fb) r'"
    using longest_false_run_doubled [OF t] by blast
  have rr: "r' = r" using r(2) r'(1) by simp
  define len where "len = length ?fb - r"
  have lenr: "length ?fb - len = r" using r(1) by (simp add: len_def)
  have "real_of_int (int (length ?fb) - (?M - 1)) = real len"
    using r(1,2) by (simp add: len_def)
  then have "get_errors_mask lag_step fast_step confbool
      = Inr (fast_step / 4 * real len, real_of_int (int l - int f + 1) * lag_step * 0.25)"
    using mx fl(2,3) by (simp add: get_errors_mask_def Let_def bind_e_def)
  moreover have "is_shortest_arc ?fb len" using r(3) by (simp add: len_def)
  moreover have "len \<le> length ?fb" by (simp add: len_def)
  moreover have "is_longest_false_run (?fb @ ?fb) (length ?fb - len)"
    using r'(2) rr lenr by simp
  ultimately show ?thesis by blast
qed

lemma seam_eval:
  "get_errors_mask 1 2 [replicate 2 True @ replicate 86 False @ replicate 2 True] = Inr (2, 1 / 4)"
  by code_simp

lemma seam_axis0:
  "any_axis0 [replicate 2 True @ replicate 86 False @ replicate 2 True]
     = replicate 2 True @ replicate 86 False @ replicate 2 True"
  by code_simp

theorem get_errors_fast_arc_witness:
  "get_errors_mask 1 2 [replicate 2 True @ replicate 86 False @ replicate 2 True]
     = Inr (2 / 4 * real 4, 1 / 4) \<and>
   is_shortest_arc (replicate 2 True @ replicate 86 False @ replicate 2 True) 4"
proof -
  let ?seam = "replicate 2 True @ replicate 86 False @ replicate 2 True"
  have rect: "\<forall>row\<in>set [?seam]. length row = 90" by simp
  have tr: "\<exists>row\<in>set [?seam]. \<exists>b\<in>set row. b" by simp
  obtain len fdlag where h:
    "get_errors_mask 1 2 [?seam] = Inr (2 / 4 * real len, fdlag)"
    "is_shortest_arc (any_axis0 [?seam]) len"
    using get_errors_fast_arc [OF rect tr, of 1 2] by blast
  have "len = 4" using h(1) seam_eval by simp
  then show ?thesis using h(2) seam_eval seam_axis0 by simp
qed

section \<open>The example inputs\<close>

text \<open>The example pair is what the constructor builds from its traces and interval.\<close>

lemma example_pair_constructed:
  "Data_init anglabels [1, 2, 3, 4, 5, 6, 7, 8, 9] [0, 0, 0, 0, 0, 0, 0, 0, 0]
     \<lparr> kw_delta = Some 1, kw_geom = None, kw_cmpvecs = None, kw_units = None \<rparr>
   = Inr example_pair"
  by (simp add: Data_init_def example_pair_def possible_geoms_def core_odd_def Window_init_def
      bind_e_def set_labels_def allclose2_def close_to_def eye2_def Let_def)

section \<open>Properties of the search grid\<close>

text \<open>
  The conversion to samples gives even counts and leaves the time of an even count
  where it is; \<open>np.unique\<close> keeps the values, sorts them and drops duplicates, and
  changes nothing when applied again.
\<close>

lemma time2samps_even_even: "even (time2samps_even t dt)"
  by (simp add: time2samps_even_def)

lemma time2samps_even_roundtrip:
  assumes "even n" and "dt \<noteq> 0"
  shows "time2samps_even (samps2time n dt) dt = n"
proof -
  from assms(1) obtain k where k: "n = 2 * k" by (auto elim: evenE)
  have "samps2time n dt / dt / 2 = real_of_int k" using assms(2) by (simp add: samps2time_def k)
  then show ?thesis by (simp add: time2samps_even_def k)
qed

lemma set_np_unique: "set (np_unique xs) = set xs"
  by (simp add: np_unique_def)

lemma distinct_np_unique: "distinct (np_unique xs)"
  by (simp add: np_unique_def)

lemma sorted_np_unique: "sorted (np_unique xs)"
  by (simp add: np_unique_def)

lemma np_unique_idem: "np_unique (np_unique xs) = np_unique xs"
proof -
  have d: "remdups (sort (remdups xs)) = sort (remdups xs)"
    by (rule distinct_remdups_id) simp
  have "sort (remdups (sort (remdups xs))) = sort (sort (remdups xs))"
    by (simp only: d)
  also have "\<dots> = sort (remdups xs)"
    by (rule sorted_sort_id) simp
  finally show ?thesis by (simp add: np_unique_def)
qed

lemma example_grid:
  "get_degs_lags_and_slags example_pair example_kwargs = Inr ([- 90, 0], [0, 2], [0, 2])"
  by code_simp

text \<open>
  Claim C5.  Whenever the grid of a measurement is built, the lag grid in samples is
  the sorted list, without duplicates, of the even sample counts of the requested lag
  times (an array or a tuple, parsed by \<open>parse_lags\<close>), and the reported lag times are
  these sample counts times the sampling interval, not the requested times.  Building
  the grid is a function of the request, so the same request gives the same grid; and
  asking again with the reported lag times gives the same sample counts and the same
  reported times.  The conversion to an even sample count and back to time is
  \<open>time2samps_even\<close> and \<open>samps2time\<close>, modelled from the specification.
\<close>

theorem lag_grid_snapped_dedup:
  assumes "get_degs_lags_and_slags d kw = Inr (dg, lg, sl)"
  shows "\<exists>req. parse_lags d kw = Inr req \<and>
           sl = np_unique (map (\<lambda>t. time2samps_even t (delta d)) req) \<and>
           set sl = (\<lambda>t. time2samps_even t (delta d)) ` set req \<and>
           distinct sl \<and> sorted sl \<and> (\<forall>n\<in>set sl. even n) \<and>
           lg = map (\<lambda>n. real_of_int n * delta d) sl \<and>
           (delta d \<noteq> 0 \<longrightarrow>
              get_degs_lags_and_slags d (kw\<lparr>kw_lags := Some (LagsArray lg)\<rparr>)
                = Inr (dg, lg, sl))"
proof -
  let ?f = "\<lambda>t. time2samps_even t (delta d)"
  from assms obtain req where req: "parse_lags d kw = Inr req"
    by (cases "parse_lags d kw") (simp_all add: get_degs_lags_and_slags_def bind_e_def)
  from assms req obtain dg0 where dg0: "parse_degs kw = Inr dg0"
    by (cases "parse_degs kw") (simp_all add: get_degs_lags_and_slags_def bind_e_def Let_def)
  have res: "dg = dg0" "sl = np_unique (map ?f req)" "lg = map (\<lambda>n. samps2time n (delta d)) sl"
    using assms req dg0 by (auto simp add: get_degs_lags_and_slags_def bind_e_def Let_def)
  have ev: "\<forall>n\<in>set sl. even n"
    by (auto simp add: res(2) set_np_unique time2samps_even_even)
  have again: "get_degs_lags_and_slags d (kw\<lparr>kw_lags := Some (LagsArray lg)\<rparr>) = Inr (dg, lg, sl)"
    if dt: "delta d \<noteq> 0"
  proof -
    have "map ?f lg = map (\<lambda>n. ?f (samps2time n (delta d))) sl"
      by (simp add: res(3) comp_def)
    also have "\<dots> = map (\<lambda>n. n) sl"
      using ev dt by (intro map_cong refl) (simp add: time2samps_even_roundtrip)
    finally have "map ?f lg = sl" by simp
    then have "np_unique (map ?f lg) = sl" by (simp add: res(2) np_unique_idem)
    moreover have "parse_degs (kw\<lparr>kw_lags := Some (LagsArray lg)\<rparr>) = Inr dg"
      using dg0 res(1) by (simp add: parse_degs_def)
    moreover have "parse_lags d (kw\<lparr>kw_lags := Some (LagsArray lg)\<rparr>) = Inr lg"
      by (simp add: parse_lags_def)
    ultimately show ?thesis
      using res(3) by (simp add: get_degs_lags_and_slags_def bind_e_def Let_def)
  qed
  have "lg = map (\<lambda>n. real_of_int n * delta d) sl"
    using res(3) by (simp add: samps2time_def)
  then show ?thesis
    using req res(2) ev again
    by (auto simp add: set_np_unique distinct_np_unique sorted_np_unique)
qed

theorem lag_grid_snapped_dedup_witness:
  "\<exists>req. parse_lags example_pair example_kwargs = Inr req \<and>
     [0, 2] = np_unique (map (\<lambda>t. time2samps_even t (delta example_pair)) req) \<and>
     set [0, 2] = (\<lambda>t. time2samps_even t (delta example_pair)) ` set req \<and>
     distinct [0, 2 :: int] \<and> sorted [0, 2 :: int] \<and> (\<forall>n\<in>set [0, 2 :: int]. even n) \<and>
     [0, 2] = map (\<lambda>n. real_of_int n * delta example_pair) [0, 2] \<and>
     (delta example_pair \<noteq> 0 \<longrightarrow>
        get_degs_lags_and_slags example_pair
          (example_kwargs\<lparr>kw_lags := Some (LagsArray [0, 2])\<rparr>)
          = Inr ([- 90, 0], [0, 2], [0, 2]))"
  by (rule lag_grid_snapped_dedup [OF example_grid])

section \<open>Properties of the grid search\<close>

text \<open>
  With transforms that do not raise, a list comprehension yields the list of its results
  and the calls of all its items in order; this gives the result and the log of the two
  loops of the search, and then of the search.
\<close>

lemma bind_l_Inr: "bind_l (Inr a, l) f = (fst (f a), l @ snd (f a))"
  by (simp add: bind_l_def)

lemma mapM_l_total:
  assumes "\<And>a. a \<in> set as \<Longrightarrow> f a = (Inr (g a), h a)"
  shows "mapM_l f as = (Inr (map g as), concat (map h as))"
  using assms
proof (induction as)
  case Nil
  then show ?case by (simp add: ret_def)
next
  case (Cons a as)
  have "f a = (Inr (g a), h a)" using Cons.prems by simp
  moreover have "mapM_l f as = (Inr (map g as), concat (map h as))"
    using Cons.IH Cons.prems by simp
  ultimately show ?case by (simp add: bind_l_Inr ret_def)
qed

lemma getout_sym:
  assumes "kw_mode kw = Some ''rotpol'' \<longrightarrow> kw_pol kw \<noteq> None"
  shows "getout (sym_core s0 s1) Inr kw src a b xy ang sh
         = (Inr (pol_term (search_pol kw) ang
                   (SChop (src_term src ang (SLag xy (- sh))) (fst (win a b sh)) (snd (win a b sh)))),
            node_events a b src (search_pol kw) ang sh)"
  using assms
  by (cases src)
    (auto simp add: getout_def srccorr_fn_def rotpol_fn_def sym_core_def call_def ret_def
      bind_l_def src_term_def pol_term_def search_pol_def node_events_def)

lemma rows_sym:
  assumes "kw_mode kw = Some ''rotpol'' \<longrightarrow> kw_pol kw \<noteq> None"
  shows "mapM_l (\<lambda>(r, ang). mapM_l (\<lambda>sh. getout (sym_core s0 s1) Inr kw src a b r ang sh) sl)
           (map (\<lambda>ang. (SRotate xy ang, ang)) dg)
         = (Inr (map (\<lambda>ang. map (\<lambda>sh. pol_term (search_pol kw) ang
                                   (SChop (src_term src ang (SLag (SRotate xy ang) (- sh)))
                                      (fst (win a b sh)) (snd (win a b sh)))) sl) dg),
            concat (map (\<lambda>ang. concat (map (\<lambda>sh. node_events a b src (search_pol kw) ang sh) sl))
                      dg))"
proof -
  let ?g = "\<lambda>(r, ang). map (\<lambda>sh. pol_term (search_pol kw) ang
                                   (SChop (src_term src ang (SLag r (- sh)))
                                      (fst (win a b sh)) (snd (win a b sh)))) sl"
  let ?h = "\<lambda>(r :: sym, ang). concat (map (\<lambda>sh. node_events a b src (search_pol kw) ang sh) sl)"
  have row: "(\<lambda>(r, ang). mapM_l (\<lambda>sh. getout (sym_core s0 s1) Inr kw src a b r ang sh) sl) p
             = (Inr (?g p), ?h p)" for p
  proof (cases p)
    case (Pair r ang)
    show ?thesis
      unfolding Pair prod.case
      by (rule mapM_l_total) (simp add: getout_sym [OF assms])
  qed
  have "mapM_l (\<lambda>(r, ang). mapM_l (\<lambda>sh. getout (sym_core s0 s1) Inr kw src a b r ang sh) sl)
           (map (\<lambda>ang. (SRotate xy ang, ang)) dg)
        = (Inr (map ?g (map (\<lambda>ang. (SRotate xy ang, ang)) dg)),
           concat (map ?h (map (\<lambda>ang. (SRotate xy ang, ang)) dg)))"
    by (rule mapM_l_total) (rule row)
  then show ?thesis by (simp add: comp_def)
qed

lemma prerot_sym:
  "mapM_l (\<lambda>ang. bind_l (call (EvRotate ang) (rotate (sym_core s0 s1) xy ang)) (\<lambda>r. ret (r, ang))) dg
   = (Inr (map (\<lambda>ang. (SRotate xy ang, ang)) dg), map EvRotate dg)"
proof -
  have "mapM_l (\<lambda>ang. bind_l (call (EvRotate ang) (rotate (sym_core s0 s1) xy ang)) (\<lambda>r. ret (r, ang))) dg
        = (Inr (map (\<lambda>ang. (SRotate xy ang, ang)) dg), concat (map (\<lambda>ang. [EvRotate ang]) dg))"
    by (rule mapM_l_total) (simp add: bind_l_def call_def ret_def sym_core_def)
  moreover have "concat (map (\<lambda>ang. [EvRotate ang]) dg) = map EvRotate dg"
    by (induction dg) simp_all
  ultimately show ?thesis by simp
qed

lemma gridsearch_sym:
  assumes rcv: "kw_rcvcorr kw \<noteq> None \<longrightarrow> rcvcorr_samps m \<noteq> None"
    and src: "kw_srccorr kw \<noteq> None \<longrightarrow> srccorr_samps m \<noteq> None"
    and mode: "kw_mode kw = Some ''rotpol'' \<longrightarrow> kw_pol kw \<noteq> None"
  shows "gridsearch (sym_core s0 s1) Inr m kw =
           (Inr (map (\<lambda>ang. map (node_term s0 s1
                   (if kw_rcvcorr kw \<noteq> None then rcvcorr_samps m else None)
                   (if kw_srccorr kw \<noteq> None then srccorr_samps m else None)
                   (search_pol kw) ang) (slags m))
                 (degs m)),
            search_events s0 s1
              (if kw_rcvcorr kw \<noteq> None then rcvcorr_samps m else None)
              (if kw_srccorr kw \<noteq> None then srccorr_samps m else None)
              (search_pol kw) (degs m) (slags m))"
proof -
  let ?c = "sym_core s0 s1"
  let ?rcv = "if kw_rcvcorr kw \<noteq> None then rcvcorr_samps m else None"
  let ?src = "if kw_srccorr kw \<noteq> None then srccorr_samps m else None"
  let ?pol = "search_pol kw"
  have canon: "call (EvRotateTo 0) (rotateto ?c (data m) 0) = (Inr (SRotateTo SData 0), [EvRotateTo 0])"
    by (simp add: call_def sym_core_def)
  have b0: "quiet (w0 ?c (data m)) = (Inr s0, [])"
    by (simp add: quiet_def sym_core_def)
  have b1: "quiet (w1 ?c (data m)) = (Inr s1, [])"
    by (simp add: quiet_def sym_core_def)
  have pre: "(if kw_rcvcorr kw \<noteq> None then
               (case rcvcorr_samps m of
                  None \<Rightarrow> raise AttributeError
                | Some (rcvphi, rcvlag) \<Rightarrow>
                    call (EvUnsplit rcvphi rcvlag)
                      (unsplit ?c (SRotateTo SData 0) rcvphi rcvlag))
             else ret (SRotateTo SData 0))
           = (Inr (pre_term ?rcv), tl (pre_events ?rcv))"
    using rcv
    by (auto simp add: pre_term_def pre_events_def call_def ret_def sym_core_def
        split: option.splits)
  have srcsel: "(if kw_srccorr kw \<noteq> None then
               (case srccorr_samps m of
                  None \<Rightarrow> raise AttributeError
                | Some sc \<Rightarrow> ret (Some sc))
             else ret None) = (Inr ?src, [])"
    using src by (auto simp add: ret_def split: option.splits)
  have "gridsearch ?c Inr m kw =
          (Inr (map (\<lambda>ang. map (\<lambda>sh. pol_term ?pol ang
                                   (SChop (src_term ?src ang (SLag (SRotate (pre_term ?rcv) ang) (- sh)))
                                      (fst (win s0 s1 sh)) (snd (win s0 s1 sh)))) (slags m)) (degs m)),
           [EvRotateTo 0] @ ([] @ ([] @ (tl (pre_events ?rcv) @ ([] @ (map EvRotate (degs m) @
             concat (map (\<lambda>ang. concat (map (\<lambda>sh. node_events s0 s1 ?src ?pol ang sh) (slags m)))
               (degs m))))))))"
    by (simp only: gridsearch_def canon b0 b1 pre srcsel prerot_sym rows_sym [OF mode]
        bind_l_Inr fst_conv snd_conv)
  moreover have "EvRotateTo 0 # tl (pre_events ?rcv) = pre_events ?rcv"
    by (simp add: pre_events_def)
  ultimately show ?thesis
    by (simp add: node_term_def search_events_def)
qed

lemma parse_corr_Inr:
  assumes "parse_corr key arg dt = Inr (s, t)"
  shows "(arg = None \<and> s = None) \<or>
         (\<exists>phi lagt. arg = Some (CorrTuple [phi, lagt]) \<and> s = Some (phi, time2samps_even lagt dt))"
proof (cases arg)
  case None
  then show ?thesis using assms by (simp add: parse_corr_def)
next
  case (Some c)
  show ?thesis
  proof (cases c)
    case CorrOther
    then show ?thesis using assms Some by (simp add: parse_corr_def)
  next
    case (CorrTuple vs)
    then have len: "length vs = 2" using assms Some by (simp add: parse_corr_def split: if_splits)
    then obtain a b where vs: "vs = [a, b]"
      by (cases vs) (auto simp add: length_Suc_conv)
    then show ?thesis using assms Some CorrTuple by (simp add: parse_corr_def Let_def)
  qed
qed

lemma Measure_init_Inr:
  assumes "Measure_init d kw = Inr m"
  shows "get_degs_lags_and_slags d kw = Inr (degs m, lags m, slags m)"
    and "\<exists>t. parse_corr ''rcvcorr'' (kw_rcvcorr kw) (delta d) = Inr (rcvcorr_samps m, t)"
    and "\<exists>t. parse_corr ''srccorr'' (kw_srccorr kw) (delta d) = Inr (srccorr_samps m, t)"
    and "data m = d" and "m_kwargs m = kw"
  using assms
  by (auto simp add: Measure_init_def bind_e_def split: sum.splits prod.splits)

lemma example_measure:
  "Measure_init example_pair example_kwargs =
     Inr \<lparr> data = example_pair, degs = [- 90, 0], lags = [0, 2], slags = [0, 2],
           rcvcorr = Some (30, 2), rcvcorr_samps = Some (30, 2),
           srccorr = Some (10, 4), srccorr_samps = Some (10, 4),
           name = ''Untitled'', m_kwargs = example_kwargs \<rparr>"
  by code_simp

text \<open>
  The search tests its own keyword arguments for \<open>rcvcorr\<close> and \<open>srccorr\<close>.  Called
  without them it applies no correction, whatever the measurement was built with.
\<close>

lemma gridsearch_without_keywords:
  assumes "kw_rcvcorr kw = None" and "kw_srccorr kw = None" and "kw_mode kw = None"
  shows "gridsearch (sym_core s0 s1) Inr m kw =
           (Inr (map (\<lambda>ang. map (node_term s0 s1 None None None ang) (slags m)) (degs m)),
            search_events s0 s1 None None None (degs m) (slags m))"
  using gridsearch_sym [of kw m s0 s1] assms by (simp add: search_pol_def)

text \<open>
  The calls do not depend on what the transforms compute.  For any transforms and any
  objective function, a search that returns has made exactly the calls of
  \<open>search_events\<close>, with the corrections its keyword arguments select: a stage that
  succeeds contributes its own calls, and a list of stages the calls of each in order.
\<close>

lemma bind_l_success:
  assumes "bind_l m f = (Inr b, l)"
  obtains a la lb where "m = (Inr a, la)" and "f a = (Inr b, lb)" and "l = la @ lb"
proof (cases "fst m")
  case (Inl e)
  then show ?thesis using assms by (simp add: bind_l_def)
next
  case (Inr a)
  then have "m = (Inr a, snd m)" by (metis prod.collapse)
  moreover have "f a = (Inr b, snd (f a))" and "l = snd m @ snd (f a)"
    using assms Inr by (auto simp add: bind_l_def intro: prod_eqI)
  ultimately show ?thesis using that by blast
qed

lemma mapM_l_success:
  assumes "mapM_l f xs = (Inr ys, l)"
    and "\<And>x y lx. x \<in> set xs \<Longrightarrow> f x = (Inr y, lx) \<Longrightarrow> y = g x \<and> lx = h x"
  shows "ys = map g xs \<and> l = concat (map h xs)"
  using assms
proof (induction xs arbitrary: ys l)
  case Nil
  then show ?case by (simp add: ret_def)
next
  case (Cons x xs)
  from Cons.prems(1) have "bind_l (f x) (\<lambda>b. bind_l (mapM_l f xs) (\<lambda>bs. ret (b # bs))) = (Inr ys, l)"
    by simp
  then obtain y lx l1 where s1: "f x = (Inr y, lx)"
      "bind_l (mapM_l f xs) (\<lambda>bs. ret (y # bs)) = (Inr ys, l1)" "l = lx @ l1"
    by (rule bind_l_success)
  from s1(2) obtain ys' l2 l3 where s2: "mapM_l f xs = (Inr ys', l2)"
      "ret (y # ys') = (Inr ys, l3)" "l1 = l2 @ l3"
    by (rule bind_l_success)
  have yx: "y = g x \<and> lx = h x" using Cons.prems(2) [of x y lx] s1(1) by simp
  have "ys' = map g xs \<and> l2 = concat (map h xs)"
    using Cons.IH [OF s2(1)] Cons.prems(2) by simp
  then show ?case using s1(3) s2(2,3) yx by (simp add: ret_def)
qed

lemma mapM_l_log:
  assumes "mapM_l f xs = (Inr ys, l)"
    and "\<And>x y lx. x \<in> set xs \<Longrightarrow> f x = (Inr y, lx) \<Longrightarrow> lx = h x"
  shows "l = concat (map h xs)"
proof -
  have "ys = map (\<lambda>x. projr (fst (f x))) xs \<and> l = concat (map h xs)"
    using assms(1)
  proof (rule mapM_l_success)
    fix x y lx assume "x \<in> set xs" and "f x = (Inr y, lx)"
    then show "y = projr (fst (f x)) \<and> lx = h x" using assms(2) by simp
  qed
  then show ?thesis by simp
qed

lemma getout_log:
  assumes "getout c func kw src a b xy ang sh = (Inr v, l)"
  shows "l = node_events a b src (search_pol kw) ang sh"
proof -
  from assms obtain xy1 l1 r1 where s1: "call (EvLag (- sh)) (lag c xy (- sh)) = (Inr xy1, l1)"
      "bind_l (srccorr_fn c src xy1 ang) (\<lambda>xy2.
         bind_l (call (EvChop (fst (win a b sh)) (snd (win a b sh)))
               (chop c xy2 (fst (win a b sh)) (snd (win a b sh)))) (\<lambda>xy3.
         bind_l (rotpol_fn c kw xy3 ang) (\<lambda>xy4. call EvFunc (func xy4)))) = (Inr v, r1)"
      "l = l1 @ r1"
    unfolding getout_def by (rule bind_l_success)
  from s1(2) obtain xy2 l2 r2 where s2: "srccorr_fn c src xy1 ang = (Inr xy2, l2)"
      "bind_l (call (EvChop (fst (win a b sh)) (snd (win a b sh)))
               (chop c xy2 (fst (win a b sh)) (snd (win a b sh)))) (\<lambda>xy3.
         bind_l (rotpol_fn c kw xy3 ang) (\<lambda>xy4. call EvFunc (func xy4))) = (Inr v, r2)"
      "r1 = l2 @ r2"
    by (rule bind_l_success)
  from s2(2) obtain xy3 l3 r3 where s3:
      "call (EvChop (fst (win a b sh)) (snd (win a b sh)))
               (chop c xy2 (fst (win a b sh)) (snd (win a b sh))) = (Inr xy3, l3)"
      "bind_l (rotpol_fn c kw xy3 ang) (\<lambda>xy4. call EvFunc (func xy4)) = (Inr v, r3)"
      "r2 = l3 @ r3"
    by (rule bind_l_success)
  from s3(2) obtain xy4 l4 r4 where s4: "rotpol_fn c kw xy3 ang = (Inr xy4, l4)"
      "call EvFunc (func xy4) = (Inr v, r4)" "r3 = l4 @ r4"
    by (rule bind_l_success)
  have e1: "l1 = [EvLag (- sh)]" using s1(1) by (simp add: call_def)
  have e2: "l2 = (case src of None \<Rightarrow> [] | Some (srcphi, srclag) \<Rightarrow> [EvUnsplit (srcphi - ang) srclag])"
    using s2(1) by (auto simp add: srccorr_fn_def call_def ret_def split: option.splits)
  have e3: "l3 = [EvChop (fst (win a b sh)) (snd (win a b sh))]"
    using s3(1) by (simp add: call_def)
  have e4: "l4 = (case search_pol kw of None \<Rightarrow> [] | Some p \<Rightarrow> [EvRotate (p - ang)])"
    using s4(1)
    by (auto simp add: rotpol_fn_def search_pol_def call_def ret_def raise_def
        split: option.splits if_splits)
  have e5: "r4 = [EvFunc]" using s4(2) by (simp add: call_def)
  show ?thesis
    by (simp add: s1(3) s2(3) s3(3) s4(3) e1 e2 e3 e4 e5 node_events_def)
qed

lemma gridsearch_log:
  assumes run: "gridsearch c func m kw = (Inr out, lg)"
    and rcv: "kw_rcvcorr kw \<noteq> None \<longrightarrow> rcvcorr_samps m \<noteq> None"
    and src: "kw_srccorr kw \<noteq> None \<longrightarrow> srccorr_samps m \<noteq> None"
    and b0: "w0 c (data m) = Inr a" and b1: "w1 c (data m) = Inr b"
  shows "lg = search_events a b
           (if kw_rcvcorr kw \<noteq> None then rcvcorr_samps m else None)
           (if kw_srccorr kw \<noteq> None then srccorr_samps m else None)
           (search_pol kw) (degs m) (slags m)"
proof -
  let ?rcv = "if kw_rcvcorr kw \<noteq> None then rcvcorr_samps m else None"
  let ?src = "if kw_srccorr kw \<noteq> None then srccorr_samps m else None"
  let ?pol = "search_pol kw"
  let ?pre = "\<lambda>xy0. (if kw_rcvcorr kw \<noteq> None then
               (case rcvcorr_samps m of
                  None \<Rightarrow> raise AttributeError
                | Some (rcvphi, rcvlag) \<Rightarrow>
                    call (EvUnsplit rcvphi rcvlag) (unsplit c xy0 rcvphi rcvlag))
             else ret xy0)"
  let ?prerot = "\<lambda>xy. mapM_l (\<lambda>ang. bind_l (call (EvRotate ang) (rotate c xy ang)) (\<lambda>r. ret (r, ang)))
               (degs m)"
  let ?rows = "\<lambda>prerot. mapM_l (\<lambda>(r, ang). mapM_l (\<lambda>sh. getout c func kw ?src a b r ang sh) (slags m))
           prerot"
  have srcsel: "(if kw_srccorr kw \<noteq> None then
               (case srccorr_samps m of
                  None \<Rightarrow> raise AttributeError
                | Some sc \<Rightarrow> ret (Some sc))
             else ret None) = (Inr ?src, [])"
    using src by (auto simp add: ret_def split: option.splits)
  have qa: "quiet (w0 c (data m)) = (Inr a, [])" and qb: "quiet (w1 c (data m)) = (Inr b, [])"
    by (simp_all add: quiet_def b0 b1)
  have pure: "\<And>(v::'z) (f::'z \<Rightarrow> 'y logged). bind_l (Inr v, []) f = f v"
    by (simp add: bind_l_def)
  have g: "gridsearch c func m kw =
      bind_l (call (EvRotateTo 0) (rotateto c (data m) 0))
        (\<lambda>xy0. bind_l (?pre xy0) (\<lambda>xy. bind_l (?prerot xy) ?rows))"
    unfolding gridsearch_def by (simp only: qa qb srcsel pure)
  from run [unfolded g] obtain xy0 l0 r0 where s0:
      "call (EvRotateTo 0) (rotateto c (data m) 0) = (Inr xy0, l0)"
      "bind_l (?pre xy0) (\<lambda>xy. bind_l (?prerot xy) ?rows) = (Inr out, r0)"
      "lg = l0 @ r0"
    by (rule bind_l_success)
  have e0: "l0 = [EvRotateTo 0]" using s0(1) by (simp add: call_def)
  from s0(2) obtain xy l1 r1 where s1: "?pre xy0 = (Inr xy, l1)"
      "bind_l (?prerot xy) ?rows = (Inr out, r1)" "r0 = l1 @ r1"
    by (rule bind_l_success)
  have e1: "l1 = tl (pre_events ?rcv)"
    using s1(1) rcv
    by (auto simp add: pre_events_def call_def ret_def raise_def split: option.splits if_splits)
  from s1(2) obtain prerot l2 l3 where s2: "?prerot xy = (Inr prerot, l2)"
      "?rows prerot = (Inr out, l3)" "r1 = l2 @ l3"
    by (rule bind_l_success)
  have "prerot = map (\<lambda>ang. (projr (rotate c xy ang), ang)) (degs m) \<and>
        l2 = concat (map (\<lambda>ang. [EvRotate ang]) (degs m))"
    using s2(1)
  proof (rule mapM_l_success)
    fix ang y lx
    assume "bind_l (call (EvRotate ang) (rotate c xy ang)) (\<lambda>r. ret (r, ang)) = (Inr y, lx)"
    then show "y = (projr (rotate c xy ang), ang) \<and> lx = [EvRotate ang]"
      by (cases "rotate c xy ang") (auto simp add: bind_l_def call_def ret_def)
  qed
  then have pr: "prerot = map (\<lambda>ang. (projr (rotate c xy ang), ang)) (degs m)"
    and e2: "l2 = map EvRotate (degs m)"
    by (simp_all add: concat_map_singleton)
  have "l3 = concat (map (\<lambda>(r, ang). concat (map (\<lambda>sh. node_events a b ?src ?pol ang sh) (slags m)))
                      prerot)"
    using s2(2)
  proof (rule mapM_l_log)
    fix p y lx
    assume "(case p of (r, ang) \<Rightarrow> mapM_l (\<lambda>sh. getout c func kw ?src a b r ang sh) (slags m))
              = (Inr y, lx)"
    then have "mapM_l (\<lambda>sh. getout c func kw ?src a b (fst p) (snd p) sh) (slags m) = (Inr y, lx)"
      by (simp add: case_prod_beta)
    then have "lx = concat (map (\<lambda>sh. node_events a b ?src ?pol (snd p) sh) (slags m))"
      by (rule mapM_l_log) (rule getout_log)
    then show "lx = (case p of (r, ang) \<Rightarrow>
                 concat (map (\<lambda>sh. node_events a b ?src ?pol ang sh) (slags m)))"
      by (simp add: case_prod_beta)
  qed
  then have e3: "l3 = concat (map (\<lambda>ang. concat (map (\<lambda>sh. node_events a b ?src ?pol ang sh) (slags m)))
                      (degs m))"
    by (simp add: pr comp_def)
  have "EvRotateTo 0 # tl (pre_events ?rcv) = pre_events ?rcv"
    by (simp add: pre_events_def)
  then show ?thesis
    by (simp add: s0(3) s1(3) s2(3) e0 e1 e2 e3 search_events_def)
qed

text \<open>
  Claim C7.  Take a measurement built by the constructor from keyword arguments, and a
  grid search called with the same keyword arguments (with a polarisation when the mode
  is \<open>rotpol\<close>), with transforms that do not raise.  The calls of the search are then
  \<open>search_events\<close>:
  the rotation of the data to angle 0; the receiver correction, once, when the
  measurement has one, before any rotation to a candidate angle; the rotations to the
  candidate angles; and for every angle and every lag the removal of the lag, the
  source correction when the measurement has one, with the angle \<open>srcphi - ang\<close> for
  the candidate angle \<open>ang\<close> of that node, the chop and the objective function.  Every
  grid node is computed from \<open>node_term\<close>: the receiver correction is applied to the
  pair in canonical orientation, the source correction to the rotated and lagged pair
  of the node.  The corrections of the measurement are the configured angle and the
  configured lag in samples.
\<close>

theorem gridsearch_corrections:
  assumes "Measure_init d kw = Inr m" and "kw_mode kw = Some ''rotpol'' \<longrightarrow> kw_pol kw \<noteq> None"
  shows "gridsearch (sym_core s0 s1) Inr m kw =
           (Inr (map (\<lambda>ang. map (node_term s0 s1 (rcvcorr_samps m) (srccorr_samps m)
                                   (search_pol kw) ang) (slags m)) (degs m)),
            search_events s0 s1 (rcvcorr_samps m) (srccorr_samps m) (search_pol kw)
              (degs m) (slags m)) \<and>
         (kw_rcvcorr kw = None \<longrightarrow> rcvcorr_samps m = None) \<and>
         (\<forall>phi t. kw_rcvcorr kw = Some (CorrTuple [phi, t]) \<longrightarrow>
            rcvcorr_samps m = Some (phi, time2samps_even t (delta d))) \<and>
         (kw_srccorr kw = None \<longrightarrow> srccorr_samps m = None) \<and>
         (\<forall>phi t. kw_srccorr kw = Some (CorrTuple [phi, t]) \<longrightarrow>
            srccorr_samps m = Some (phi, time2samps_even t (delta d)))"
proof -
  obtain t where "parse_corr ''rcvcorr'' (kw_rcvcorr kw) (delta d) = Inr (rcvcorr_samps m, t)"
    using Measure_init_Inr(2) [OF assms(1)] by blast
  then have r: "(kw_rcvcorr kw = None \<and> rcvcorr_samps m = None) \<or>
      (\<exists>phi lagt. kw_rcvcorr kw = Some (CorrTuple [phi, lagt]) \<and>
         rcvcorr_samps m = Some (phi, time2samps_even lagt (delta d)))"
    by (rule parse_corr_Inr)
  obtain t' where "parse_corr ''srccorr'' (kw_srccorr kw) (delta d) = Inr (srccorr_samps m, t')"
    using Measure_init_Inr(3) [OF assms(1)] by blast
  then have s: "(kw_srccorr kw = None \<and> srccorr_samps m = None) \<or>
      (\<exists>phi lagt. kw_srccorr kw = Some (CorrTuple [phi, lagt]) \<and>
         srccorr_samps m = Some (phi, time2samps_even lagt (delta d)))"
    by (rule parse_corr_Inr)
  have r1: "kw_rcvcorr kw \<noteq> None \<longrightarrow> rcvcorr_samps m \<noteq> None" using r by auto
  have s1: "kw_srccorr kw \<noteq> None \<longrightarrow> srccorr_samps m \<noteq> None" using s by auto
  have r2: "(if kw_rcvcorr kw \<noteq> None then rcvcorr_samps m else None) = rcvcorr_samps m"
    using r by auto
  have s2: "(if kw_srccorr kw \<noteq> None then srccorr_samps m else None) = srccorr_samps m"
    using s by auto
  have "gridsearch (sym_core s0 s1) Inr m kw =
           (Inr (map (\<lambda>ang. map (node_term s0 s1 (rcvcorr_samps m) (srccorr_samps m)
                                   (search_pol kw) ang) (slags m)) (degs m)),
            search_events s0 s1 (rcvcorr_samps m) (srccorr_samps m) (search_pol kw)
              (degs m) (slags m))"
    using gridsearch_sym [OF r1 s1 assms(2), of s0 s1] by (simp only: r2 s2)
  then show ?thesis using r s by auto
qed

theorem gridsearch_corrections_witness:
  "\<exists>m. Measure_init example_pair example_kwargs = Inr m \<and>
     gridsearch (sym_core 3 5) Inr m example_kwargs =
       (Inr [[SChop (SUnsplit (SLag (SRotate (SUnsplit (SRotateTo SData 0) 30 2) (- 90)) 0)
                       (10 - (- 90)) 4) 3 5,
              SChop (SUnsplit (SLag (SRotate (SUnsplit (SRotateTo SData 0) 30 2) (- 90)) (- 2))
                       (10 - (- 90)) 4) 2 4],
             [SChop (SUnsplit (SLag (SRotate (SUnsplit (SRotateTo SData 0) 30 2) 0) 0)
                       (10 - 0) 4) 3 5,
              SChop (SUnsplit (SLag (SRotate (SUnsplit (SRotateTo SData 0) 30 2) 0) (- 2))
                       (10 - 0) 4) 2 4]],
        [EvRotateTo 0, EvUnsplit 30 2, EvRotate (- 90), EvRotate 0,
         EvLag 0, EvUnsplit (10 - (- 90)) 4, EvChop 3 5, EvFunc,
         EvLag (- 2), EvUnsplit (10 - (- 90)) 4, EvChop 2 4, EvFunc,
         EvLag 0, EvUnsplit (10 - 0) 4, EvChop 3 5, EvFunc,
         EvLag (- 2), EvUnsplit (10 - 0) 4, EvChop 2 4, EvFunc])"
proof -
  let ?m = "\<lparr> data = example_pair, degs = [- 90, 0], lags = [0, 2], slags = [0, 2],
           rcvcorr = Some (30, 2), rcvcorr_samps = Some (30, 2),
           srccorr = Some (10, 4), srccorr_samps = Some (10, 4),
           name = ''Untitled'', m_kwargs = example_kwargs \<rparr>"
  have mode: "kw_mode example_kwargs = Some ''rotpol'' \<longrightarrow> kw_pol example_kwargs \<noteq> None"
    by (simp add: example_kwargs_def)
  have "gridsearch (sym_core 3 5) Inr ?m example_kwargs =
          (Inr (map (\<lambda>ang. map (node_term 3 5 (rcvcorr_samps ?m) (srccorr_samps ?m)
                                   (search_pol example_kwargs) ang) (slags ?m)) (degs ?m)),
            search_events 3 5 (rcvcorr_samps ?m) (srccorr_samps ?m) (search_pol example_kwargs)
              (degs ?m) (slags ?m))"
    using gridsearch_corrections [OF example_measure mode, of 3 5] by blast
  then have "gridsearch (sym_core 3 5) Inr ?m example_kwargs =
       (Inr [[SChop (SUnsplit (SLag (SRotate (SUnsplit (SRotateTo SData 0) 30 2) (- 90)) 0)
                       (10 - (- 90)) 4) 3 5,
              SChop (SUnsplit (SLag (SRotate (SUnsplit (SRotateTo SData 0) 30 2) (- 90)) (- 2))
                       (10 - (- 90)) 4) 2 4],
             [SChop (SUnsplit (SLag (SRotate (SUnsplit (SRotateTo SData 0) 30 2) 0) 0)
                       (10 - 0) 4) 3 5,
              SChop (SUnsplit (SLag (SRotate (SUnsplit (SRotateTo SData 0) 30 2) 0) (- 2))
                       (10 - 0) 4) 2 4]],
        [EvRotateTo 0, EvUnsplit 30 2, EvRotate (- 90), EvRotate 0,
         EvLag 0, EvUnsplit (10 - (- 90)) 4, EvChop 3 5, EvFunc,
         EvLag (- 2), EvUnsplit (10 - (- 90)) 4, EvChop 2 4, EvFunc,
         EvLag 0, EvUnsplit (10 - 0) 4, EvChop 3 5, EvFunc,
         EvLag (- 2), EvUnsplit (10 - 0) 4, EvChop 2 4, EvFunc])"
    by (simp add: node_term_def src_term_def pre_term_def pol_term_def search_pol_def
        search_events_def pre_events_def node_events_def win_def int_half_def
        example_kwargs_def)
  then show ?thesis using example_measure by blast
qed

section \<open>Properties of the constructors\<close>

lemma Data_init_malformed:
  assumes "length xa \<noteq> length ya \<or> even (length xa) \<or> even (length ya) \<or>
           kw_delta dk = None \<or> (\<exists>dt. kw_delta dk = Some dt \<and> dt \<le> 0) \<or>
           (\<exists>g. kw_geom dk = Some g \<and> g \<notin> set possible_geoms)"
  shows "\<exists>e. Data_init anglabels xa ya dk = Inl e"
proof (cases "kw_delta dk")
  case None
  then show ?thesis by (simp add: Data_init_def)
next
  case (Some dt)
  show ?thesis
  proof (cases "dt \<le> 0 \<or> even (length xa) \<or> length xa \<noteq> length ya")
    case True
    then show ?thesis using Some by (auto simp add: Data_init_def even_iff_mod_2_eq_zero)
  next
    case False
    then obtain g where "kw_geom dk = Some g" and "g \<notin> set possible_geoms"
      using assms Some by auto
    then show ?thesis using Some by (auto simp add: Data_init_def Let_def)
  qed
qed

lemma parse_corr_malformed:
  assumes "arg = Some CorrOther \<or> (\<exists>vs. arg = Some (CorrTuple vs) \<and> length vs \<noteq> 2)"
  shows "\<exists>e. parse_corr key arg dt = Inl e"
  using assms by (auto simp add: parse_corr_def)

lemma Measure_init_malformed:
  assumes "kw_rcvcorr kw = Some CorrOther \<or>
           (\<exists>vs. kw_rcvcorr kw = Some (CorrTuple vs) \<and> length vs \<noteq> 2) \<or>
           kw_srccorr kw = Some CorrOther \<or>
           (\<exists>vs. kw_srccorr kw = Some (CorrTuple vs) \<and> length vs \<noteq> 2)"
  shows "\<exists>e. Measure_init d kw = Inl e"
proof (rule ccontr)
  assume "\<not> (\<exists>e. Measure_init d kw = Inl e)"
  then obtain m where m: "Measure_init d kw = Inr m"
    by (cases "Measure_init d kw") auto
  obtain t where "parse_corr ''rcvcorr'' (kw_rcvcorr kw) (delta d) = Inr (rcvcorr_samps m, t)"
    using Measure_init_Inr(2) [OF m] by blast
  then have r: "\<not> (kw_rcvcorr kw = Some CorrOther \<or>
      (\<exists>vs. kw_rcvcorr kw = Some (CorrTuple vs) \<and> length vs \<noteq> 2))"
    using parse_corr_malformed [of "kw_rcvcorr kw" "''rcvcorr''" "delta d"] by auto
  obtain t' where "parse_corr ''srccorr'' (kw_srccorr kw) (delta d) = Inr (srccorr_samps m, t')"
    using Measure_init_Inr(3) [OF m] by blast
  then have s: "\<not> (kw_srccorr kw = Some CorrOther \<or>
      (\<exists>vs. kw_srccorr kw = Some (CorrTuple vs) \<and> length vs \<noteq> 2))"
    using parse_corr_malformed [of "kw_srccorr kw" "''srccorr''" "delta d"] by auto
  show False using assms r s by blast
qed

text \<open>
  Claim C8.  A malformed constructor argument makes the construction fail with an
  error: for the data, traces of different lengths, a trace of even length, a missing or
  non-positive sampling interval, or a geometry tag that is not among the known ones;
  for the measurement, a receiver or source correction that is not a tuple or is a
  tuple of a length other than two.
\<close>

theorem malformed_arguments_fail:
  "(length xa \<noteq> length ya \<or> even (length xa) \<or> even (length ya) \<or>
    kw_delta dk = None \<or> (\<exists>dt. kw_delta dk = Some dt \<and> dt \<le> 0) \<or>
    (\<exists>g. kw_geom dk = Some g \<and> g \<notin> set possible_geoms)
      \<longrightarrow> (\<exists>e. Data_init anglabels xa ya dk = Inl e)) \<and>
   (kw_rcvcorr kw = Some CorrOther \<or>
    (\<exists>vs. kw_rcvcorr kw = Some (CorrTuple vs) \<and> length vs \<noteq> 2) \<or>
    kw_srccorr kw = Some CorrOther \<or>
    (\<exists>vs. kw_srccorr kw = Some (CorrTuple vs) \<and> length vs \<noteq> 2)
      \<longrightarrow> (\<exists>e. Measure_init d kw = Inl e))"
  using Data_init_malformed [of xa ya dk anglabels] Measure_init_malformed [of kw d]
  by blast

theorem malformed_arguments_fail_witness:
  "(\<exists>e. Data_init (\<lambda>c. []) [1, 2, 3] [1, 2, 3]
          \<lparr> kw_delta = Some 1, kw_geom = Some ''polar'', kw_cmpvecs = None, kw_units = None \<rparr>
        = Inl e) \<and>
   (\<exists>e. Measure_init example_pair (example_kwargs\<lparr> kw_rcvcorr := Some (CorrTuple [30, 2, 1]) \<rparr>)
        = Inl e)"
  using malformed_arguments_fail
    [of "[1, 2, 3]" "[1, 2, 3]"
        "\<lparr> kw_delta = Some 1, kw_geom = Some ''polar'', kw_cmpvecs = None, kw_units = None \<rparr>"
        "\<lambda>c. []" "example_kwargs\<lparr> kw_rcvcorr := Some (CorrTuple [30, 2, 1]) \<rparr>" example_pair]
  by (simp add: possible_geoms_def example_kwargs_def)

section \<open>Properties of equality\<close>

lemma np_all_eq_refl: "np_all_eq xa xa"
  by (auto simp add: np_all_eq_def list_all_iff set_zip)

lemma Pair_eq_window_update: "Pair_eq p (p\<lparr> window := w \<rparr>)"
  by (simp add: Pair_eq_def pair_class_def pair_keys_def np_all_eq_refl Window_eq_def
      window_class_def window_dict_def)

text \<open>
  Claim C9.  The claim has two pairs be equal only if every attribute, the window
  among them, is equal.  \<open>Pair.__eq__\<close> compares the window attribute with
  \<open>Window.__eq__\<close>, which looks at no value: the example pair and the same pair with a
  window of another width, offset and taper fraction compare equal.
\<close>

theorem Pair_eq_different_windows:
  "Pair_eq example_pair (example_pair\<lparr> window := \<lparr> width = 5, offset = 1, tukey = Some (1 / 2) \<rparr> \<rparr>)
     = True \<and>
   window example_pair \<noteq> \<lparr> width = 5, offset = 1, tukey = Some (1 / 2) \<rparr>"
  using Pair_eq_window_update [of example_pair "\<lparr> width = 5, offset = 1, tukey = Some (1 / 2) \<rparr>"]
  by (simp add: example_pair_def)

end
